theory Spec2Isabelle
  imports Main "HOL-Library.Word"
begin

unbundle bit_operations_syntax

section \<open>Bioloid protocol constants (Bioloid.h)\<close>

type_synonym u8 = "8 word"
type_synonym u16 = "16 word"
type_synonym u32 = "32 word"

text \<open>
  \<^verbatim>\<open>struct ID : Bits<uint8_t>\<close>, \<^verbatim>\<open>struct Command : Bits<uint8_t>\<close> and
  \<^verbatim>\<open>struct Error : Bits<uint16_t>\<close> are plain integer constants.
\<close>

definition ID_DEFAULT :: u8 where "ID_DEFAULT = 0x00"
definition ID_BROADCAST :: u8 where "ID_BROADCAST = 0xFE"
definition ID_INVALID :: u8 where "ID_INVALID = 0xFF"

definition Command_PING :: u8 where "Command_PING = 0x01"
definition Command_READ :: u8 where "Command_READ = 0x02"
definition Command_WRITE :: u8 where "Command_WRITE = 0x03"

type_synonym Error = u16

definition Error_CHECKSUM :: Error where "Error_CHECKSUM = 0x10"
definition Error_NONE :: Error where "Error_NONE = 0x00"
definition Error_NOT_DONE :: Error where "Error_NOT_DONE = 0x100"
definition Error_TIMEOUT :: Error where "Error_TIMEOUT = 0x101"
definition Error_TOO_MUCH_DATA :: Error where "Error_TOO_MUCH_DATA = 0x102"

section \<open>Packet (Packet.h, Packet.cpp)\<close>

text \<open>
  \<^verbatim>\<open>enum class State\<close> of the parser.
\<close>

datatype State = IDLE | FF_1ST_RCVD | FF_2ND_RCVD | ID_RCVD | LENGTH_RCVD | COMMAND_RCVD

text \<open>
  The members of \<^verbatim>\<open>class Packet\<close>. \<^verbatim>\<open>m_params\<close> is a pointer into memory owned by the
  caller: it is modelled as the memory reachable from that pointer, a function from the
  index to the byte stored there, so that a store at any index, inside or outside the
  first \<^verbatim>\<open>m_maxParams\<close> bytes, shows in the model.
\<close>

record Packet =
  m_state :: State
  m_maxParams :: u8
  m_params :: "nat \<Rightarrow> u8"
  m_id :: u8
  m_length :: u8
  m_cmd :: u8
  m_paramIdx :: u8
  m_checksum :: u8

definition MAX_PARAMS :: u8 where "MAX_PARAMS = 0xff - 2"

text \<open>
  \<^verbatim>\<open>Packet::Packet(size_t maxParams, void* params)\<close>: the member initialisers of the
  constructor and of the class; \<^verbatim>\<open>assert(maxParams <= MAX_PARAMS)\<close> aborts, which is
  \<open>None\<close>.
\<close>

definition Packet_ctor :: "nat \<Rightarrow> (nat \<Rightarrow> u8) \<Rightarrow> Packet option" where
  "Packet_ctor maxParams params =
     (if maxParams \<le> unat MAX_PARAMS
      then Some \<lparr> m_state = IDLE, m_maxParams = of_nat maxParams, m_params = params,
                  m_id = ID_DEFAULT, m_length = 2, m_cmd = Command_PING,
                  m_paramIdx = 0, m_checksum = 0 \<rparr>
      else None)"

definition numParams :: "Packet \<Rightarrow> u8" where
  "numParams p = (if m_length p \<le> 2 then 0 else m_length p - 2)"

text \<open>The setters \<^verbatim>\<open>id(ID::Type)\<close> and \<^verbatim>\<open>command(Command::Type)\<close>.\<close>

definition set_id :: "u8 \<Rightarrow> Packet \<Rightarrow> Packet" where
  "set_id i p = p\<lparr>m_id := i\<rparr>"

definition set_command :: "u8 \<Rightarrow> Packet \<Rightarrow> Packet" where
  "set_command c p = p\<lparr>m_cmd := c\<rparr>"

text \<open>
  \<^verbatim>\<open>Packet::params(size_t numParams, const void* params)\<close>: the assertion aborts when more
  parameters are given than the packet can hold; \<^verbatim>\<open>memcpy\<close> copies the first
  \<open>n\<close> bytes of the source.
\<close>

definition memcpy :: "(nat \<Rightarrow> u8) \<Rightarrow> (nat \<Rightarrow> u8) \<Rightarrow> nat \<Rightarrow> (nat \<Rightarrow> u8)" where
  "memcpy dst src n = (\<lambda>i. if i < n then src i else dst i)"

definition params :: "nat \<Rightarrow> (nat \<Rightarrow> u8) \<Rightarrow> Packet \<Rightarrow> Packet option" where
  "params n src p =
     (if \<not> n \<le> unat (m_maxParams p) then None
      else let n' = (if n \<ge> unat (m_maxParams p) then unat (m_maxParams p) else n)
           in Some (p\<lparr> m_params := memcpy (m_params p) src n',
                       m_length := 2 + min (of_nat n') (m_maxParams p) \<rparr>))"

text \<open>\<^verbatim>\<open>Packet::params(std::initializer_list<uint8_t>)\<close>.\<close>

definition params_list :: "u8 list \<Rightarrow> Packet \<Rightarrow> Packet option" where
  "params_list ps p = params (length ps) (\<lambda>i. ps ! i) p"

text \<open>
  \<^verbatim>\<open>Packet::update_checksum\<close>: the loop over the parameters adds \<^verbatim>\<open>m_params[i]\<close> for
  \<open>i\<close> from 0 while \<^verbatim>\<open>i < numParams()\<close>.
\<close>

function update_checksum_loop :: "Packet \<Rightarrow> nat \<Rightarrow> u8 \<Rightarrow> u8" where
  "update_checksum_loop p i cs =
     (if i < unat (numParams p)
      then update_checksum_loop p (i + 1) (cs + m_params p i)
      else cs)"
  by pat_completeness auto
termination
  by (relation "measure (\<lambda>(p, i, cs). unat (numParams p) - i)") auto

definition update_checksum :: "Packet \<Rightarrow> Packet" where
  "update_checksum p =
     p\<lparr>m_checksum := NOT (update_checksum_loop p 0 (m_id p + m_length p + m_cmd p))\<rparr>"

text \<open>
  \<^verbatim>\<open>Packet::data(size_t maxLen, void* data)\<close>. The output buffer is the memory
  reachable from \<^verbatim>\<open>data\<close>; the function returns \<^verbatim>\<open>len\<close>, and the model returns the
  buffer with it. \<open>put\<close> is the statement \<^verbatim>\<open>if (len < maxLen) data[len++] = b\<close>.
\<close>

definition put :: "nat \<Rightarrow> nat \<times> (nat \<Rightarrow> u8) \<Rightarrow> u8 \<Rightarrow> nat \<times> (nat \<Rightarrow> u8)" where
  "put maxLen s b =
     (case s of (len, buf) \<Rightarrow> if len < maxLen then (len + 1, buf(len := b)) else (len, buf))"

text \<open>
  The loop over the parameters: \<open>Inl\<close> is the early \<^verbatim>\<open>return len\<close> (the index has
  reached \<^verbatim>\<open>m_maxParams\<close>), \<open>Inr\<close> is leaving the loop, by \<^verbatim>\<open>break\<close> or at its end.
\<close>

function data_loop ::
  "nat \<Rightarrow> Packet \<Rightarrow> nat \<Rightarrow> nat \<times> (nat \<Rightarrow> u8) \<Rightarrow> (nat \<times> (nat \<Rightarrow> u8)) + (nat \<times> (nat \<Rightarrow> u8))"
where
  "data_loop maxLen p idx s =
     (if idx < unat (numParams p)
      then (if idx \<ge> unat (m_maxParams p) then Inl s
            else if fst s < maxLen
                 then data_loop maxLen p (idx + 1) (fst s + 1, (snd s)(fst s := m_params p idx))
                 else Inr s)
      else Inr s)"
  by pat_completeness auto
termination
  by (relation "measure (\<lambda>(maxLen, p, idx, s). unat (numParams p) - idx)") auto

definition data :: "nat \<Rightarrow> (nat \<Rightarrow> u8) \<Rightarrow> Packet \<Rightarrow> nat \<times> (nat \<Rightarrow> u8)" where
  "data maxLen buf p =
     (let s0 = put maxLen (0, buf) 0xff;
          s1 = put maxLen s0 0xff;
          s2 = put maxLen s1 (m_id p);
          s3 = put maxLen s2 (m_length p);
          s4 = put maxLen s3 (m_cmd p)
      in case data_loop maxLen p 0 s4 of
           Inl s \<Rightarrow> s
         | Inr s \<Rightarrow> put maxLen s (m_checksum p))"

text \<open>
  \<^verbatim>\<open>Packet::processByte\<close>: one case per state, in the order of the \<^verbatim>\<open>switch\<close>; the
  result is the error code returned and the packet after the call.
\<close>

definition processByte :: "Packet \<Rightarrow> u8 \<Rightarrow> Error \<times> Packet" where
  "processByte p byte =
     (case m_state p of
        IDLE \<Rightarrow>
          if byte = 0xFF then (Error_NOT_DONE, p\<lparr>m_state := FF_1ST_RCVD\<rparr>)
          else (Error_NOT_DONE, p\<lparr>m_state := IDLE\<rparr>)
      | FF_1ST_RCVD \<Rightarrow>
          if byte = 0xFF then (Error_NOT_DONE, p\<lparr>m_state := FF_2ND_RCVD\<rparr>)
          else (Error_NOT_DONE, p\<lparr>m_state := IDLE\<rparr>)
      | FF_2ND_RCVD \<Rightarrow>
          if byte = 0xFF then (Error_NOT_DONE, p\<lparr>m_state := FF_2ND_RCVD\<rparr>)
          else (Error_NOT_DONE, p\<lparr>m_id := byte, m_checksum := byte, m_state := ID_RCVD\<rparr>)
      | ID_RCVD \<Rightarrow>
          (Error_NOT_DONE,
           p\<lparr>m_length := byte, m_checksum := m_checksum p + byte, m_state := LENGTH_RCVD\<rparr>)
      | LENGTH_RCVD \<Rightarrow>
          (Error_NOT_DONE,
           p\<lparr>m_cmd := byte, m_checksum := m_checksum p + byte, m_paramIdx := 0,
             m_state := COMMAND_RCVD\<rparr>)
      | COMMAND_RCVD \<Rightarrow>
          if m_paramIdx p \<ge> numParams p
          then (let cs = NOT (m_checksum p)
                in if cs = byte
                   then (if m_paramIdx p \<le> m_maxParams p
                         then (Error_NONE, p\<lparr>m_checksum := cs, m_state := IDLE\<rparr>)
                         else (Error_TOO_MUCH_DATA, p\<lparr>m_checksum := cs, m_state := IDLE\<rparr>))
                   else (Error_CHECKSUM, p\<lparr>m_checksum := byte, m_state := IDLE\<rparr>))
          else (Error_NOT_DONE,
                p\<lparr>m_checksum := m_checksum p + byte,
                  m_params := (if m_paramIdx p < m_maxParams p
                               then (m_params p)(unat (m_paramIdx p) := byte)
                               else m_params p),
                  m_paramIdx := m_paramIdx p + 1,
                  m_state := COMMAND_RCVD\<rparr>))"

text \<open>
  Feeding a byte sequence, one \<^verbatim>\<open>processByte\<close> call per byte: the error code of every
  call, in order, and the packet after the last call.
\<close>

fun processBytes :: "Packet \<Rightarrow> u8 list \<Rightarrow> Error list \<times> Packet" where
  "processBytes p [] = ([], p)"
| "processBytes p (b # bs) =
     (case processByte p b of (e, p') \<Rightarrow>
        (case processBytes p' bs of (es, p'') \<Rightarrow> (e # es, p'')))"

text \<open>
  \<^verbatim>\<open>PacketTest::parseData\<close> (tests/PacketTest.cpp): feeds the bytes until a call returns
  something other than \<^verbatim>\<open>NOT_DONE\<close>, and returns that; \<^verbatim>\<open>NOT_DONE\<close> when the bytes run out.
\<close>

fun parseData :: "Packet \<Rightarrow> u8 list \<Rightarrow> Error \<times> Packet" where
  "parseData p [] = (Error_NOT_DONE, p)"
| "parseData p (b # bs) =
     (case processByte p b of (err, p') \<Rightarrow>
        if err \<noteq> Error_NOT_DONE then (err, p') else parseData p' bs)"

section \<open>Control table (ControlTable.h, ControlTable.cpp, FileStorage.cpp)\<close>

text \<open>\<^verbatim>\<open>IControlTableStorage::Error\<close>.\<close>

datatype StorageError = Storage_NONE | Storage_FAILED

text \<open>\<^verbatim>\<open>IControlTable::Offset\<close> and the default values.\<close>

definition Offset_MODEL :: u8 where "Offset_MODEL = 0x00"
definition Offset_VERSION :: u8 where "Offset_VERSION = 0x02"
definition Offset_ID :: u8 where "Offset_ID = 0x03"
definition Offset_BAUD :: u8 where "Offset_BAUD = 0x04"
definition Offset_RDT :: u8 where "Offset_RDT = 0x05"
definition Offset_LED :: u8 where "Offset_LED = 0x19"

definition DEFAULT_DEVICE_ID :: u8 where "DEFAULT_DEVICE_ID = 0x00"
definition DEFAULT_BAUD :: u8 where "DEFAULT_BAUD = 0x01"
definition DEFAULT_RDT :: u8 where "DEFAULT_RDT = 250"

text \<open>
  The members of \<^verbatim>\<open>class IControlTable\<close>. \<^verbatim>\<open>m_ctlBytes\<close> is the memory reachable from
  the pointer, as for the packet. \<^verbatim>\<open>m_port\<close> points to the port, of which the table
  only ever calls \<^verbatim>\<open>setBaudRate\<close>: the port is the list of the bit rates it was given,
  in call order. The storage collaborator \<^verbatim>\<open>m_storage\<close> and the virtual member functions
  are arguments of the functions that call them. A derived class extends the record.
\<close>

record ControlTable =
  m_numCtlBytes :: u8
  m_numPersistentBytes :: u8
  m_ctlBytes :: "nat \<Rightarrow> u8"
  m_port :: "u32 list"

text \<open>
  A virtual hook (\<^verbatim>\<open>populateEntry\<close>, \<^verbatim>\<open>entryModified\<close>): it receives an offset and
  may change the object; \<open>None\<close> is an assertion that failed (the program aborts).
\<close>

type_synonym 'a hook = "u8 \<Rightarrow> 'a ControlTable_scheme \<Rightarrow> 'a ControlTable_scheme option"

definition memset :: "(nat \<Rightarrow> u8) \<Rightarrow> u8 \<Rightarrow> nat \<Rightarrow> (nat \<Rightarrow> u8)" where
  "memset mem v n = (\<lambda>i. if i < n then v else mem i)"

text \<open>
  \<^verbatim>\<open>get_u8\<close>, \<^verbatim>\<open>get_u16\<close>, \<^verbatim>\<open>get_u32\<close> with the template \<^verbatim>\<open>get<T>\<close> they call, at
  \<^verbatim>\<open>sizeof(T)\<close> 1, 2 and 4. \<open>pe\<close> is the \<^verbatim>\<open>populateEntry\<close> that virtual dispatch
  selects. The result is the value read and the object after the hook.
\<close>

definition get_u8 ::
  "'a hook \<Rightarrow> u8 \<Rightarrow> 'a ControlTable_scheme \<Rightarrow> (u8 \<times> 'a ControlTable_scheme) option" where
  "get_u8 pe offset t =
     (if \<not> unat offset + 1 \<le> unat (m_numCtlBytes t) then None
      else case pe offset t of
             None \<Rightarrow> None
           | Some t' \<Rightarrow> Some (m_ctlBytes t' (unat offset), t'))"

definition get_u16 ::
  "'a hook \<Rightarrow> u8 \<Rightarrow> 'a ControlTable_scheme \<Rightarrow> (u16 \<times> 'a ControlTable_scheme) option" where
  "get_u16 pe offset t =
     (if \<not> unat offset + 2 \<le> unat (m_numCtlBytes t) then None
      else case pe offset t of
             None \<Rightarrow> None
           | Some t' \<Rightarrow>
               (let val = ucast (m_ctlBytes t' (unat offset + 1));
                    val = push_bit 8 val;
                    val = val OR ucast (m_ctlBytes t' (unat offset))
                in Some (val, t')))"

text \<open>
  The loop \<^verbatim>\<open>for (i = 1; i < sizeof(T); i++) { *val <<= 8; *val |= m_ctlBytes[--offset]; }\<close>,
  by the number of iterations left. \<^verbatim>\<open>offset\<close> is a \<^verbatim>\<open>uint8_t\<close>.
\<close>

primrec get_loop :: "nat \<Rightarrow> (nat \<Rightarrow> u8) \<Rightarrow> u8 \<Rightarrow> u32 \<Rightarrow> u32" where
  "get_loop 0 b offset val = val"
| "get_loop (Suc n) b offset val =
     get_loop n b (offset - 1) (push_bit 8 val OR ucast (b (unat (offset - 1))))"

definition get_u32 ::
  "'a hook \<Rightarrow> u8 \<Rightarrow> 'a ControlTable_scheme \<Rightarrow> (u32 \<times> 'a ControlTable_scheme) option" where
  "get_u32 pe offset t =
     (if \<not> unat offset + 4 \<le> unat (m_numCtlBytes t) then None
      else case pe offset t of
             None \<Rightarrow> None
           | Some t' \<Rightarrow>
               (let offset1 = offset + 4;
                    offset2 = offset1 - 1;
                    val = ucast (m_ctlBytes t' (unat offset2))
                in Some (get_loop (4 - 1) (m_ctlBytes t') offset2 val, t')))"

text \<open>
  The template \<^verbatim>\<open>set<T>\<close> at \<^verbatim>\<open>sizeof(T)\<close> 1, 2 and 4. \<open>em\<close> is the
  \<^verbatim>\<open>entryModified\<close> that virtual dispatch selects; it is called with the value that
  \<^verbatim>\<open>offset\<close> has at the end of the function.
\<close>

definition set_u8 ::
  "'a hook \<Rightarrow> u8 \<Rightarrow> u8 \<Rightarrow> 'a ControlTable_scheme \<Rightarrow> 'a ControlTable_scheme option" where
  "set_u8 em offset val t =
     (if \<not> unat offset + 1 \<le> unat (m_numCtlBytes t) then None
      else em offset (t\<lparr>m_ctlBytes := (m_ctlBytes t)(unat offset := val)\<rparr>))"

definition set_u16 ::
  "'a hook \<Rightarrow> u8 \<Rightarrow> u16 \<Rightarrow> 'a ControlTable_scheme \<Rightarrow> 'a ControlTable_scheme option" where
  "set_u16 em offset val t =
     (if \<not> unat offset + 2 \<le> unat (m_numCtlBytes t) then None
      else (let b1 = (m_ctlBytes t)(unat offset := ucast (val AND 0xff));
                offset1 = offset + 1;
                val1 = drop_bit 8 val;
                b2 = b1(unat offset1 := ucast (val1 AND 0xff));
                offset2 = offset1 + 1
            in em offset2 (t\<lparr>m_ctlBytes := b2\<rparr>)))"

text \<open>
  The loop \<^verbatim>\<open>for (i = 1; i < sizeof(T); i++) { val >>= 8; m_ctlBytes[offset++] = val & 0xff; }\<close>,
  by the number of iterations left: the bytes and the offset after it.
\<close>

primrec set_loop :: "nat \<Rightarrow> (nat \<Rightarrow> u8) \<Rightarrow> u8 \<Rightarrow> u32 \<Rightarrow> (nat \<Rightarrow> u8) \<times> u8" where
  "set_loop 0 b offset val = (b, offset)"
| "set_loop (Suc n) b offset val =
     (let val1 = drop_bit 8 val
      in set_loop n (b(unat offset := ucast (val1 AND 0xff))) (offset + 1) val1)"

definition set_u32 ::
  "'a hook \<Rightarrow> u8 \<Rightarrow> u32 \<Rightarrow> 'a ControlTable_scheme \<Rightarrow> 'a ControlTable_scheme option" where
  "set_u32 em offset val t =
     (if \<not> unat offset + 4 \<le> unat (m_numCtlBytes t) then None
      else (let b1 = (m_ctlBytes t)(unat offset := ucast (val AND 0xff));
                offset1 = offset + 1
            in case set_loop (4 - 1) b1 offset1 val of
                 (b2, offset2) \<Rightarrow> em offset2 (t\<lparr>m_ctlBytes := b2\<rparr>)))"

text \<open>The base class's hooks, \<^verbatim>\<open>IControlTable::populateEntry\<close> and \<^verbatim>\<open>IControlTable::entryModified\<close>.\<close>

definition IControlTable_populateEntry :: "'a hook" where
  "IControlTable_populateEntry offset t = Some t"

definition setBaudRate :: "u32 \<Rightarrow> 'a ControlTable_scheme \<Rightarrow> 'a ControlTable_scheme" where
  "setBaudRate baudRate t = t\<lparr>m_port := m_port t @ [baudRate]\<rparr>"

definition IControlTable_entryModified :: "'a hook \<Rightarrow> 'a hook" where
  "IControlTable_entryModified pe offset t =
     (if offset = Offset_BAUD
      then (case get_u8 pe Offset_BAUD t of
              None \<Rightarrow> None
            | Some (v, t') \<Rightarrow>
                (let val = (ucast v :: u32) + 1;
                     baudRate = 2000000 div val
                 in Some (setBaudRate baudRate t')))
      else Some t)"

text \<open>\<^verbatim>\<open>IControlTable::setToInitialValues\<close>; the three values are \<^verbatim>\<open>uint8_t\<close>.\<close>

definition IControlTable_setToInitialValues ::
  "'a hook \<Rightarrow> 'a ControlTable_scheme \<Rightarrow> 'a ControlTable_scheme option" where
  "IControlTable_setToInitialValues em t =
     (case set_u8 em Offset_ID DEFAULT_DEVICE_ID
             (t\<lparr>m_ctlBytes := memset (m_ctlBytes t) 0 (unat (m_numCtlBytes t))\<rparr>) of
        None \<Rightarrow> None
      | Some t1 \<Rightarrow>
          (case set_u8 em Offset_BAUD DEFAULT_BAUD t1 of
             None \<Rightarrow> None
           | Some t2 \<Rightarrow> set_u8 em Offset_RDT DEFAULT_RDT t2))"

text \<open>
  The storage collaborator's \<^verbatim>\<open>load(offset, numBytes, data)\<close>: it is given the memory at
  \<^verbatim>\<open>data\<close> and returns its error code and that memory as it has left it.
\<close>

type_synonym storage_load = "u8 \<Rightarrow> u8 \<Rightarrow> (nat \<Rightarrow> u8) \<Rightarrow> StorageError \<times> (nat \<Rightarrow> u8)"

text \<open>
  \<^verbatim>\<open>IControlTable::load\<close>. \<open>ld\<close> is \<^verbatim>\<open>m_storage.load\<close> and \<open>init\<close> the
  \<^verbatim>\<open>setToInitialValues\<close> that virtual dispatch selects.
\<close>

definition load ::
  "storage_load \<Rightarrow> ('a ControlTable_scheme \<Rightarrow> 'a ControlTable_scheme option) \<Rightarrow>
   'a ControlTable_scheme \<Rightarrow> 'a ControlTable_scheme option" where
  "load ld init t =
     (let t1 = t\<lparr>m_ctlBytes := memset (m_ctlBytes t) 0 (unat (m_numCtlBytes t))\<rparr>
      in case ld 0 (m_numPersistentBytes t1) (m_ctlBytes t1) of
           (rc, mem) \<Rightarrow>
             if rc = Storage_NONE then Some (t1\<lparr>m_ctlBytes := mem\<rparr>)
             else init (t1\<lparr>m_ctlBytes := mem\<rparr>))"

text \<open>
  \<^verbatim>\<open>FileStorage::load\<close>. The file is its contents, or \<open>None\<close> when it cannot be
  opened. \<^verbatim>\<open>read\<close> stores the bytes that the file has from \<^verbatim>\<open>offset\<close>, at most
  \<^verbatim>\<open>numBytes\<close> of them, and returns how many they are.
\<close>

definition FileStorage_load :: "u8 list option \<Rightarrow> storage_load" where
  "FileStorage_load file offset numBytes mem =
     (case file of
        None \<Rightarrow> (Storage_FAILED, mem)
      | Some content \<Rightarrow>
          (let got = take (unat numBytes) (drop (unat offset) content);
               mem' = (\<lambda>i. if i < length got then got ! i else mem i)
           in if length got \<noteq> unat numBytes then (Storage_FAILED, mem')
              else (Storage_NONE, mem')))"

text \<open>
  A derived class in the manner of \<^verbatim>\<open>TestControlTable\<close> (tests/ControlTableTest.cpp),
  whose overrides of the two hooks call the base class's; here each also notes the call
  and the offset it was given.
\<close>

datatype hook_call = PopulateEntry u8 | EntryModified u8

record RecordingTable = ControlTable +
  hook_calls :: "hook_call list"

definition Recording_populateEntry :: "\<lparr>hook_calls :: hook_call list\<rparr> hook" where
  "Recording_populateEntry offset t =
     IControlTable_populateEntry offset (t\<lparr>hook_calls := hook_calls t @ [PopulateEntry offset]\<rparr>)"

definition Recording_entryModified :: "\<lparr>hook_calls :: hook_call list\<rparr> hook" where
  "Recording_entryModified offset t =
     IControlTable_entryModified Recording_populateEntry offset
       (t\<lparr>hook_calls := hook_calls t @ [EntryModified offset]\<rparr>)"

section \<open>Fixtures and invariants\<close>

text \<open>Memory that holds the byte 0 everywhere, for the concrete runs.\<close>

definition zeros :: "nat \<Rightarrow> u8" where
  "zeros i = 0"

text \<open>
  A table of the size of \<^verbatim>\<open>TestControlTable\<close> (\<^verbatim>\<open>NUM_CTL_BYTES = 0x20\<close>,
  \<^verbatim>\<open>NUM_PERSISTENT_BYTES = 0x10\<close>), all bytes 0, whose port and hooks have not been
  called yet.
\<close>

definition test_table :: RecordingTable where
  "test_table = \<lparr>m_numCtlBytes = 0x20, m_numPersistentBytes = 0x10, m_ctlBytes = zeros,
                  m_port = [], hook_calls = []\<rparr>"

text \<open>
  While the parser reads parameters, the parameter index has not passed the declared
  count.
\<close>

definition idx_ok :: "Packet \<Rightarrow> bool" where
  "idx_ok p \<longleftrightarrow> (m_state p = COMMAND_RCVD \<longrightarrow> m_paramIdx p \<le> numParams p)"

section \<open>Facts about the packet parser\<close>

lemmas Error_defs =
  Error_CHECKSUM_def Error_NONE_def Error_NOT_DONE_def Error_TIMEOUT_def Error_TOO_MUCH_DATA_def

declare update_checksum_loop.simps [simp del]

declare data_loop.simps [simp del]

lemma Error_distinct [simp]:
  "Error_NOT_DONE \<noteq> Error_NONE" "Error_NONE \<noteq> Error_NOT_DONE"
  "Error_NOT_DONE \<noteq> Error_CHECKSUM" "Error_CHECKSUM \<noteq> Error_NOT_DONE"
  "Error_NOT_DONE \<noteq> Error_TOO_MUCH_DATA" "Error_TOO_MUCH_DATA \<noteq> Error_NOT_DONE"
  "Error_NONE \<noteq> Error_CHECKSUM" "Error_CHECKSUM \<noteq> Error_NONE"
  "Error_NONE \<noteq> Error_TOO_MUCH_DATA" "Error_TOO_MUCH_DATA \<noteq> Error_NONE"
  "Error_CHECKSUM \<noteq> Error_TOO_MUCH_DATA" "Error_TOO_MUCH_DATA \<noteq> Error_CHECKSUM"
  by (simp_all add: Error_defs)

lemma Packet_ctor_Some:
  "Packet_ctor C mem = Some q \<Longrightarrow>
     C \<le> 253 \<and> unat (m_maxParams q) = C \<and> m_state q = IDLE \<and> m_params q = mem \<and>
     m_paramIdx q = 0 \<and> m_id q = 0 \<and> m_length q = 2 \<and> m_cmd q = 1 \<and> m_checksum q = 0"
  by (auto simp: Packet_ctor_def MAX_PARAMS_def unat_of_nat ID_DEFAULT_def Command_PING_def
           split: if_splits)

lemma unat_numParams: "unat (numParams p) = unat (m_length p) - 2"
  by (auto simp: numParams_def word_le_nat_alt unat_sub not_le)

lemma numParams_le: "unat (numParams p) \<le> 253"
proof -
  have "unat (m_length p) < 256" using unsigned_less [of "m_length p", where ?'a=nat] by simp
  then show ?thesis by (simp add: unat_numParams)
qed

subsection \<open>One call of processByte, by state\<close>

lemma processByte_IDLE:
  "m_state p = IDLE \<Longrightarrow> processByte p b =
     (Error_NOT_DONE, if b = 0xFF then p\<lparr>m_state := FF_1ST_RCVD\<rparr> else p)"
  by (simp add: processByte_def)

lemma processByte_FF_1ST:
  "m_state p = FF_1ST_RCVD \<Longrightarrow> processByte p b =
     (Error_NOT_DONE, p\<lparr>m_state := (if b = 0xFF then FF_2ND_RCVD else IDLE)\<rparr>)"
  by (simp add: processByte_def)

lemma processByte_FF_2ND:
  "m_state p = FF_2ND_RCVD \<Longrightarrow> processByte p b =
     (Error_NOT_DONE,
      if b = 0xFF then p else p\<lparr>m_id := b, m_checksum := b, m_state := ID_RCVD\<rparr>)"
  by (simp add: processByte_def)

lemma processByte_ID:
  "m_state p = ID_RCVD \<Longrightarrow> processByte p b =
     (Error_NOT_DONE,
      p\<lparr>m_length := b, m_checksum := m_checksum p + b, m_state := LENGTH_RCVD\<rparr>)"
  by (simp add: processByte_def)

lemma processByte_LENGTH:
  "m_state p = LENGTH_RCVD \<Longrightarrow> processByte p b =
     (Error_NOT_DONE,
      p\<lparr>m_cmd := b, m_checksum := m_checksum p + b, m_paramIdx := 0,
        m_state := COMMAND_RCVD\<rparr>)"
  by (simp add: processByte_def)

lemma processByte_param:
  "m_state p = COMMAND_RCVD \<Longrightarrow> m_paramIdx p < numParams p \<Longrightarrow> processByte p b =
     (Error_NOT_DONE,
      p\<lparr>m_checksum := m_checksum p + b,
        m_params := (if m_paramIdx p < m_maxParams p
                     then (m_params p)(unat (m_paramIdx p) := b) else m_params p),
        m_paramIdx := m_paramIdx p + 1\<rparr>)"
  by (simp add: processByte_def not_le [symmetric])

lemma processByte_final:
  "m_state p = COMMAND_RCVD \<Longrightarrow> numParams p \<le> m_paramIdx p \<Longrightarrow> processByte p b =
     (if NOT (m_checksum p) = b
      then (if m_paramIdx p \<le> m_maxParams p then Error_NONE else Error_TOO_MUCH_DATA,
            p\<lparr>m_checksum := b, m_state := IDLE\<rparr>)
      else (Error_CHECKSUM, p\<lparr>m_checksum := b, m_state := IDLE\<rparr>))"
  by (simp add: processByte_def Let_def)

lemma processByte_maxParams [simp]: "m_maxParams (snd (processByte p b)) = m_maxParams p"
  by (cases "m_state p") (simp_all add: processByte_def Let_def)

lemma processByte_params:
  "m_params (snd (processByte p b)) =
     (if m_state p = COMMAND_RCVD \<and> m_paramIdx p < numParams p \<and> m_paramIdx p < m_maxParams p
      then (m_params p)(unat (m_paramIdx p) := b) else m_params p)"
  by (cases "m_state p") (auto simp: processByte_def Let_def)

lemma processByte_id:
  "m_id (snd (processByte p b)) =
     (if m_state p = FF_2ND_RCVD \<and> b \<noteq> 0xFF then b else m_id p)"
  by (cases "m_state p") (auto simp: processByte_def Let_def)

subsection \<open>Sequences of calls\<close>

lemma processBytes_Cons:
  "processBytes p (b # bs) =
     (fst (processByte p b) # fst (processBytes (snd (processByte p b)) bs),
      snd (processBytes (snd (processByte p b)) bs))"
  by (simp split: prod.splits)

lemma parseData_Cons:
  "parseData p (b # bs) =
     (if fst (processByte p b) \<noteq> Error_NOT_DONE then processByte p b
      else parseData (snd (processByte p b)) bs)"
  by (simp split: prod.splits)

declare processBytes.simps(2) [simp del]

declare parseData.simps(2) [simp del]

lemma processBytes_append:
  "processBytes p (xs @ ys) =
     (fst (processBytes p xs) @ fst (processBytes (snd (processBytes p xs)) ys),
      snd (processBytes (snd (processBytes p xs)) ys))"
  by (induction xs arbitrary: p) (simp_all add: processBytes_Cons)

lemma processBytes_snoc:
  "snd (processBytes p (bs @ [b])) = snd (processByte (snd (processBytes p bs)) b)"
  by (simp add: processBytes_append processBytes_Cons)

lemma processBytes_maxParams [simp]: "m_maxParams (snd (processBytes p bs)) = m_maxParams p"
proof (induction bs arbitrary: p)
  case Nil show ?case by simp
next
  case (Cons b bs)
  have "m_maxParams (snd (processBytes (snd (processByte p b)) bs)) = m_maxParams p"
    by (simp add: Cons.IH)
  then show ?case by (simp add: processBytes_Cons)
qed

lemma processBytes_frame:
  "unat (m_maxParams p) \<le> i \<Longrightarrow> m_params (snd (processBytes p bs)) i = m_params p i"
proof (induction bs arbitrary: p)
  case Nil show ?case by simp
next
  case (Cons b bs)
  let ?p' = "snd (processByte p b)"
  have "m_params (snd (processBytes ?p' bs)) i = m_params ?p' i"
    using Cons.prems by (intro Cons.IH) simp
  also have "\<dots> = m_params p i"
    using Cons.prems by (auto simp: processByte_params word_less_nat_alt)
  finally show ?case by (simp add: processBytes_Cons)
qed

lemma idx_ok_step: "idx_ok p \<Longrightarrow> idx_ok (snd (processByte p b))"
proof (cases "m_state p")
  case COMMAND_RCVD
  assume ok: "idx_ok p"
  show ?thesis
  proof (cases "m_paramIdx p < numParams p")
    case True
    then have "m_paramIdx p + 1 \<le> numParams p" by (simp add: inc_le)
    with True COMMAND_RCVD show ?thesis
      by (simp add: processByte_param idx_ok_def numParams_def split: if_splits)
  next
    case False
    with COMMAND_RCVD show ?thesis by (simp add: processByte_final idx_ok_def not_less)
  qed
qed (auto simp: processByte_def idx_ok_def)

lemma idx_ok_processBytes: "idx_ok p \<Longrightarrow> idx_ok (snd (processBytes p bs))"
  by (induction bs arbitrary: p) (simp_all add: idx_ok_step processBytes_Cons)

lemma idx_ok_ctor: "Packet_ctor C mem = Some q \<Longrightarrow> idx_ok q"
  by (auto simp: idx_ok_def dest: Packet_ctor_Some)

lemma Packet_ctor_the: "C \<le> 253 \<Longrightarrow> Packet_ctor C mem = Some (the (Packet_ctor C mem))"
  by (simp add: Packet_ctor_def MAX_PARAMS_def)

lemmas processByte_cases =
  processByte_IDLE processByte_FF_1ST processByte_FF_2ND processByte_ID processByte_LENGTH
  processByte_param processByte_final

lemma id_inv_step: "m_id p \<noteq> 0xFF \<Longrightarrow> m_id (snd (processByte p b)) \<noteq> 0xFF"
  by (simp add: processByte_id)

lemma id_inv_processBytes: "m_id p \<noteq> 0xFF \<Longrightarrow> m_id (snd (processBytes p bs)) \<noteq> 0xFF"
  by (induction bs arbitrary: p) (simp_all add: processBytes_Cons id_inv_step)

lemma parseData_append:
  "fst (parseData p xs) = Error_NOT_DONE \<Longrightarrow>
     parseData p (xs @ s) = parseData (snd (parseData p xs)) s"
  by (induction xs arbitrary: p) (simp_all add: parseData_Cons split: if_splits)

lemma processByte_in_frame:
  "m_state p \<noteq> IDLE \<Longrightarrow> m_state p \<noteq> FF_1ST_RCVD \<Longrightarrow>
     fst (processByte p b) = Error_NOT_DONE \<Longrightarrow>
     m_state (snd (processByte p b)) \<noteq> IDLE \<and> m_state (snd (processByte p b)) \<noteq> FF_1ST_RCVD"
  by (cases "m_state p") (auto simp: processByte_def Let_def split: if_splits)

lemma parseData_in_frame:
  "m_state p \<noteq> IDLE \<Longrightarrow> m_state p \<noteq> FF_1ST_RCVD \<Longrightarrow>
     fst (parseData p xs) = Error_NOT_DONE \<Longrightarrow>
     m_state (snd (parseData p xs)) \<noteq> IDLE"
proof (induction xs arbitrary: p)
  case Nil then show ?case by simp
next
  case (Cons b xs)
  from Cons.prems(3) have nd: "fst (processByte p b) = Error_NOT_DONE"
    and rest: "fst (parseData (snd (processByte p b)) xs) = Error_NOT_DONE"
    by (auto simp: parseData_Cons split: if_splits)
  from processByte_in_frame [OF Cons.prems(1,2) nd] rest
  have "m_state (snd (parseData (snd (processByte p b)) xs)) \<noteq> IDLE"
    by (intro Cons.IH) simp_all
  with nd show ?case by (simp add: parseData_Cons)
qed

lemma parseData_hunting:
  "m_state p = IDLE \<or> m_state p = FF_1ST_RCVD \<Longrightarrow>
     fst (parseData p xs) = Error_NOT_DONE \<Longrightarrow> m_state (snd (parseData p xs)) = IDLE \<Longrightarrow>
     snd (parseData p xs) = p\<lparr>m_state := IDLE\<rparr>"
proof (induction xs arbitrary: p)
  case Nil then show ?case by auto
next
  case (Cons b xs)
  let ?p' = "snd (processByte p b)"
  from Cons.prems(2) have nd: "fst (processByte p b) = Error_NOT_DONE"
    and rest: "fst (parseData ?p' xs) = Error_NOT_DONE"
    by (auto simp: parseData_Cons split: if_splits)
  from Cons.prems(3) nd have idle: "m_state (snd (parseData ?p' xs)) = IDLE"
    by (simp add: parseData_Cons)
  have step: "?p' = p\<lparr>m_state := m_state ?p'\<rparr>"
    using Cons.prems(1) by (auto simp: processByte_IDLE processByte_FF_1ST)
  have hunt: "m_state ?p' = IDLE \<or> m_state ?p' = FF_1ST_RCVD"
  proof (rule ccontr)
    assume "\<not> ?thesis"
    then have "m_state (snd (parseData ?p' xs)) \<noteq> IDLE"
      using rest by (intro parseData_in_frame) simp_all
    with idle show False by simp
  qed
  have "snd (parseData ?p' xs) = ?p'\<lparr>m_state := IDLE\<rparr>"
    using hunt rest idle by (rule Cons.IH)
  also have "\<dots> = p\<lparr>m_state := IDLE\<rparr>" by (subst step) simp
  finally show ?case using nd by (simp add: parseData_Cons)
qed

lemma parseData_sync:
  "m_state p = IDLE \<Longrightarrow>
     parseData p (0xFF # 0xFF # s) = parseData (p\<lparr>m_state := FF_2ND_RCVD\<rparr>) s"
  by (simp add: parseData_Cons processByte_IDLE processByte_FF_1ST)

lemma parseData_extra_FF:
  "m_state p = FF_2ND_RCVD \<Longrightarrow> parseData p (replicate k 0xFF @ s) = parseData p s"
  by (induction k) (simp_all add: parseData_Cons processByte_FF_2ND)

lemma parseData_no_FF:
  "m_state p = IDLE \<Longrightarrow> 0xFF \<notin> set noise \<Longrightarrow> parseData p noise = (Error_NOT_DONE, p)"
  by (induction noise) (simp_all add: parseData_Cons processByte_IDLE)

subsection \<open>Serialising and parsing a whole frame\<close>

lemma update_checksum_loop_sum:
  "update_checksum_loop p i cs = cs + sum_list (map (m_params p) [i..<unat (numParams p)])"
proof (induction p i cs rule: update_checksum_loop.induct)
  case (1 p i cs)
  show ?case
  proof (cases "i < unat (numParams p)")
    case True
    then have "[i..<unat (numParams p)] = i # [i + 1..<unat (numParams p)]"
      by (simp add: upt_conv_Cons)
    with True "1.IH" show ?thesis
      by (subst update_checksum_loop.simps) (simp add: add.assoc)
  next
    case False
    then show ?thesis by (subst update_checksum_loop.simps) simp
  qed
qed

lemma data_loop_all:
  assumes "unat (numParams p) \<le> unat (m_maxParams p)"
  shows "idx \<le> unat (numParams p) \<Longrightarrow> len + (unat (numParams p) - idx) \<le> maxLen \<Longrightarrow>
     data_loop maxLen p idx (len, buf) =
       Inr (len + (unat (numParams p) - idx),
            \<lambda>j. if len \<le> j \<and> j < len + (unat (numParams p) - idx)
                 then m_params p (idx + (j - len)) else buf j)"
proof (induction "unat (numParams p) - idx" arbitrary: idx len buf)
  case 0
  then show ?case by (subst data_loop.simps) (auto simp: fun_eq_iff)
next
  case (Suc k)
  then have lt: "idx < unat (numParams p)" and k: "k = unat (numParams p) - (idx + 1)" by simp_all
  from lt assms have cap: "\<not> unat (m_maxParams p) \<le> idx" by simp
  from Suc.prems lt have room: "len < maxLen" by simp
  have "data_loop maxLen p (idx + 1) (len + 1, buf(len := m_params p idx)) =
     Inr (len + 1 + (unat (numParams p) - (idx + 1)),
            \<lambda>j. if len + 1 \<le> j \<and> j < len + 1 + (unat (numParams p) - (idx + 1))
                 then m_params p (idx + 1 + (j - (len + 1))) else (buf(len := m_params p idx)) j)"
    using Suc.prems lt by (intro Suc.hyps(1) k) simp_all
  also have "\<dots> = Inr (len + (unat (numParams p) - idx),
            \<lambda>j. if len \<le> j \<and> j < len + (unat (numParams p) - idx)
                 then m_params p (idx + (j - len)) else buf j)"
    using lt by (auto simp: fun_eq_iff intro!: arg_cong [where f = "m_params p"])
  finally show ?case using lt cap room by (subst data_loop.simps) simp
qed

lemma data_all:
  assumes "unat (numParams p) \<le> unat (m_maxParams p)" and "unat (numParams p) + 6 \<le> maxLen"
  shows "fst (data maxLen buf p) = unat (numParams p) + 6 \<and>
         map (snd (data maxLen buf p)) [0..<fst (data maxLen buf p)] =
           [0xFF, 0xFF, m_id p, m_length p, m_cmd p] @
           map (m_params p) [0..<unat (numParams p)] @ [m_checksum p]"
proof -
  let ?n = "unat (numParams p)"
  let ?b5 = "buf(0 := 0xFF, 1 := 0xFF, 2 := m_id p, 3 := m_length p, 4 := m_cmd p)"
  let ?out = "(\<lambda>j. if 5 \<le> j \<and> j < 5 + ?n then m_params p (j - 5) else ?b5 j)(5 + ?n := m_checksum p)"
  have n: "Suc (Suc 0) = 2" "Suc 2 = 3" "Suc 3 = 4" "Suc 4 = 5" by simp_all
  have l: "0 < maxLen" "1 < maxLen" "2 < maxLen" "3 < maxLen" "4 < maxLen" "5 + ?n < maxLen"
    using assms(2) by simp_all
  have loop: "data_loop maxLen p 0 (5, ?b5) =
      Inr (5 + ?n, \<lambda>j. if 5 \<le> j \<and> j < 5 + ?n then m_params p (j - 5) else ?b5 j)"
    using data_loop_all [OF assms(1), of 0 5 maxLen ?b5] assms(2) by (simp add: fun_eq_iff)
  have d: "data maxLen buf p = (?n + 6, ?out)"
    using l loop by (simp add: data_def put_def Let_def n add.commute)
  have "map ?out [0..<?n + 6] =
      [0xFF, 0xFF, m_id p, m_length p, m_cmd p] @ map (m_params p) [0..<?n] @ [m_checksum p]"
  proof (rule nth_equalityI)
    fix j assume "j < length (map ?out [0..<?n + 6])"
    then have j: "j < ?n + 6" by simp
    have five: "Suc (Suc (Suc (Suc (Suc 0)))) = 5" by simp
    show "map ?out [0..<?n + 6] ! j =
      ([0xFF, 0xFF, m_id p, m_length p, m_cmd p] @ map (m_params p) [0..<?n] @ [m_checksum p]) ! j"
      using j by (auto simp: nth_append nth_Cons' five)
  qed simp
  with d show ?thesis by simp
qed

text \<open>Feeding parameter bytes while the declared count is not yet reached.\<close>

lemma processBytes_body:
  "m_state p = COMMAND_RCVD \<Longrightarrow> unat (m_paramIdx p) + length bs \<le> unat (numParams p) \<Longrightarrow>
     processBytes p bs =
       (replicate (length bs) Error_NOT_DONE,
        p\<lparr>m_checksum := m_checksum p + sum_list bs,
          m_params := (\<lambda>j. if unat (m_paramIdx p) \<le> j \<and> j < unat (m_paramIdx p) + length bs \<and>
                               j < unat (m_maxParams p)
                            then bs ! (j - unat (m_paramIdx p)) else m_params p j),
          m_paramIdx := m_paramIdx p + of_nat (length bs)\<rparr>)"
proof (induction bs arbitrary: p)
  case Nil
  have "(\<lambda>j. if unat (m_paramIdx p) \<le> j \<and> j < unat (m_paramIdx p) + length ([]::u8 list) \<and>
                               j < unat (m_maxParams p)
                            then [] ! (j - unat (m_paramIdx p)) else m_params p j) = m_params p"
    by (auto simp: fun_eq_iff)
  then show ?case by simp
next
  case (Cons b bs)
  let ?k = "unat (m_paramIdx p)"
  from Cons.prems have lt: "m_paramIdx p < numParams p" by (simp add: word_less_nat_alt)
  have "?k < 255"
    using Cons.prems(2) numParams_le [of p] by simp
  then have k1: "unat (m_paramIdx p + 1) = ?k + 1"
    by (simp add: unat_word_ariths)
  define p1 where "p1 = p\<lparr>m_checksum := m_checksum p + b,
        m_params := (if m_paramIdx p < m_maxParams p
                     then (m_params p)(?k := b) else m_params p),
        m_paramIdx := m_paramIdx p + 1\<rparr>"
  have step: "processByte p b = (Error_NOT_DONE, p1)"
    unfolding p1_def using Cons.prems(1) lt by (rule processByte_param)
  have st: "m_state p1 = COMMAND_RCVD" and np: "numParams p1 = numParams p"
    and idx: "unat (m_paramIdx p1) = ?k + 1" and cap: "m_maxParams p1 = m_maxParams p"
    using Cons.prems(1) k1 by (simp_all add: p1_def numParams_def)
  have "unat (m_paramIdx p1) + length bs \<le> unat (numParams p1)"
    using Cons.prems(2) by (simp add: idx np)
  note IH = Cons.IH [OF st this]
  have mem: "(\<lambda>j. if unat (m_paramIdx p1) \<le> j \<and> j < unat (m_paramIdx p1) + length bs \<and>
                  j < unat (m_maxParams p1)
               then bs ! (j - unat (m_paramIdx p1)) else m_params p1 j) =
     (\<lambda>j. if ?k \<le> j \<and> j < ?k + length (b # bs) \<and> j < unat (m_maxParams p)
          then (b # bs) ! (j - ?k) else m_params p j)"
    unfolding idx cap
    by (auto simp: p1_def fun_eq_iff word_less_nat_alt nth_Cons' Suc_diff_le
             intro!: arg_cong [where f = "(!) bs"])
  have "processBytes p (b # bs) =
      (Error_NOT_DONE # fst (processBytes p1 bs), snd (processBytes p1 bs))"
    by (simp add: processBytes_Cons step)
  also have "\<dots> = (replicate (length (b # bs)) Error_NOT_DONE,
        p1\<lparr>m_checksum := m_checksum p1 + sum_list bs,
          m_params := (\<lambda>j. if ?k \<le> j \<and> j < ?k + length (b # bs) \<and> j < unat (m_maxParams p)
                            then (b # bs) ! (j - ?k) else m_params p j),
          m_paramIdx := m_paramIdx p1 + of_nat (length bs)\<rparr>)"
    unfolding IH mem by simp
  also have "p1\<lparr>m_checksum := m_checksum p1 + sum_list bs,
          m_params := (\<lambda>j. if ?k \<le> j \<and> j < ?k + length (b # bs) \<and> j < unat (m_maxParams p)
                            then (b # bs) ! (j - ?k) else m_params p j),
          m_paramIdx := m_paramIdx p1 + of_nat (length bs)\<rparr> =
      p\<lparr>m_checksum := m_checksum p + sum_list (b # bs),
          m_params := (\<lambda>j. if ?k \<le> j \<and> j < ?k + length (b # bs) \<and> j < unat (m_maxParams p)
                            then (b # bs) ! (j - ?k) else m_params p j),
          m_paramIdx := m_paramIdx p + of_nat (length (b # bs))\<rparr>"
    by (simp add: p1_def add.assoc add.commute [of 1])
  finally show ?case .
qed

text \<open>A whole frame up to its checksum byte, fed to an idle parser.\<close>

lemma processBytes_frame_bytes:
  assumes "m_state p = IDLE" and "i \<noteq> 0xFF" and "length ps = unat l - 2"
  shows "processBytes p (0xFF # 0xFF # i # l # c # ps) =
       (replicate (5 + length ps) Error_NOT_DONE,
        p\<lparr>m_state := COMMAND_RCVD, m_id := i, m_length := l, m_cmd := c,
          m_checksum := i + l + c + sum_list ps,
          m_params := (\<lambda>j. if j < length ps \<and> j < unat (m_maxParams p)
                            then ps ! j else m_params p j),
          m_paramIdx := of_nat (length ps)\<rparr>)"
proof -
  define h where "h = p\<lparr>m_id := i, m_checksum := i + l + c, m_length := l, m_cmd := c,
                       m_paramIdx := 0, m_state := COMMAND_RCVD\<rparr>"
  have hd: "processBytes p [0xFF, 0xFF, i, l, c] = (replicate 5 Error_NOT_DONE, h)"
    unfolding h_def using assms(1,2) by (simp add: processBytes.simps(2) processByte_cases eval_nat_numeral)
  have h: "m_state h = COMMAND_RCVD" "unat (m_paramIdx h) = 0" "m_maxParams h = m_maxParams p"
    "m_params h = m_params p"
    by (simp_all add: h_def)
  have "unat (m_paramIdx h) + length ps \<le> unat (numParams h)"
    using assms(3) by (simp add: unat_numParams h_def)
  note body = processBytes_body [OF h(1) this]
  have mem: "(\<lambda>j. if unat (m_paramIdx h) \<le> j \<and> j < unat (m_paramIdx h) + length ps \<and>
                               j < unat (m_maxParams h)
                            then ps ! (j - unat (m_paramIdx h)) else m_params h j) =
             (\<lambda>j. if j < length ps \<and> j < unat (m_maxParams p) then ps ! j else m_params p j)"
    unfolding h by (simp cong: if_cong)
  have "processBytes p (0xFF # 0xFF # i # l # c # ps) = processBytes p ([0xFF, 0xFF, i, l, c] @ ps)"
    by simp
  also have "\<dots> = (replicate 5 Error_NOT_DONE @ replicate (length ps) Error_NOT_DONE,
        h\<lparr>m_checksum := m_checksum h + sum_list ps,
          m_params := (\<lambda>j. if j < length ps \<and> j < unat (m_maxParams p) then ps ! j else m_params p j),
          m_paramIdx := m_paramIdx h + of_nat (length ps)\<rparr>)"
    by (simp only: processBytes_append hd body mem fst_conv snd_conv)
  also have "h\<lparr>m_checksum := m_checksum h + sum_list ps,
          m_params := (\<lambda>j. if j < length ps \<and> j < unat (m_maxParams p) then ps ! j else m_params p j),
          m_paramIdx := m_paramIdx h + of_nat (length ps)\<rparr> =
        p\<lparr>m_state := COMMAND_RCVD, m_id := i, m_length := l, m_cmd := c,
          m_checksum := i + l + c + sum_list ps,
          m_params := (\<lambda>j. if j < length ps \<and> j < unat (m_maxParams p)
                            then ps ! j else m_params p j),
          m_paramIdx := of_nat (length ps)\<rparr>"
    by (simp add: h_def)
  finally show ?thesis
    by (simp add: replicate_add [symmetric] del: replicate_add)
qed

lemma params_list_Some:
  assumes "Packet_ctor C memA = Some p0"
    and "params_list ps (set_command c (set_id i p0)) = Some p1"
  shows "length ps \<le> C \<and> m_id p1 = i \<and> m_cmd p1 = c \<and> unat (m_maxParams p1) = C \<and>
         unat (m_length p1) = length ps + 2 \<and> unat (numParams p1) = length ps \<and>
         map (m_params p1) [0..<length ps] = ps"
proof -
  note p0 = Packet_ctor_Some [OF assms(1)]
  from assms(2) p0 have le: "length ps \<le> C"
    by (simp add: params_list_def params_def set_command_def set_id_def split: if_splits)
  with p0 have n: "unat (of_nat (length ps) :: u8) = length ps"
    by (simp add: unat_of_nat)
  from le p0 n have m: "min (of_nat (length ps)) (m_maxParams p0) = (of_nat (length ps) :: u8)"
    by (simp add: min_def word_le_nat_alt)
  have p1: "p1 = p0\<lparr>m_id := i, m_cmd := c, m_params := memcpy (m_params p0) (\<lambda>i. ps ! i) (length ps),
                     m_length := 2 + of_nat (length ps)\<rparr>"
    using assms(2) p0 le m
    by (auto simp: params_list_def params_def set_command_def set_id_def Let_def split: if_splits)
  have len: "unat (m_length p1) = length ps + 2"
    using le p0 n by (simp add: p1 unat_word_ariths)
  then have "unat (numParams p1) = length ps" by (simp add: unat_numParams)
  moreover have "map (m_params p1) [0..<length ps] = ps"
    by (rule nth_equalityI) (simp_all add: p1 memcpy_def)
  ultimately show ?thesis using le len p0 by (simp add: p1)
qed

section \<open>Facts about the control table\<close>

lemma low_byte16: "(ucast ((v::u16) AND 0xff) :: u8) = ucast v"
proof -
  have m: "(0xff::u16) = mask 8" by (simp add: mask_eq_exp_minus_1)
  show ?thesis unfolding m by (rule bit_word_eqI) (auto simp: bit_simps)
qed

lemma low_byte32: "(ucast ((v::u32) AND 0xff) :: u8) = ucast v"
proof -
  have m: "(0xff::u32) = mask 8" by (simp add: mask_eq_exp_minus_1)
  show ?thesis unfolding m by (rule bit_word_eqI) (auto simp: bit_simps)
qed

lemma three: "(3::nat) = Suc (Suc (Suc 0))"
  by simp

lemma unat_off:
  "unat (off::u8) + k \<le> unat (n::u8) \<Longrightarrow> j \<le> k \<Longrightarrow> unat (off + of_nat j) = unat off + j"
proof -
  assume a: "unat off + k \<le> unat n" "j \<le> k"
  have "unat n < 256" using unsigned_less [of n, where ?'a = nat] by simp
  with a have "unat off + j < 256" by simp
  then show ?thesis using a by (simp add: unat_word_ariths unat_of_nat)
qed

lemma get_loop_3:
  "get_loop 3 b offset val =
     push_bit 8 (push_bit 8 (push_bit 8 val OR ucast (b (unat (offset - 1))))
                              OR ucast (b (unat (offset - 2))))
       OR ucast (b (unat (offset - 3)))"
  by (simp only: three get_loop.simps) (simp add: diff_diff_eq)

lemma set_loop_3:
  "set_loop 3 b offset val =
     (b(unat offset := ucast (drop_bit 8 val),
        unat (offset + 1) := ucast (drop_bit 16 val),
        unat (offset + 2) := ucast (drop_bit 24 val)), offset + 3)"
  by (simp only: three set_loop.simps Let_def low_byte32) (simp add: drop_bit_drop_bit add.assoc)

lemma unat_off_simps:
  assumes "unat (off::u8) + 4 \<le> unat (n::u8)"
  shows "unat (off + 1) = unat off + 1" "unat (off + 2) = unat off + 2" "unat (off + 3) = unat off + 3"
    "unat (1 + off) = unat off + 1" "unat (2 + off) = unat off + 2" "unat (3 + off) = unat off + 3"
  using unat_off [OF assms, of 1] unat_off [OF assms, of 2] unat_off [OF assms, of 3]
  by (simp_all add: add.commute)

lemma unat_off_1:
  assumes "unat (off::u8) + 2 \<le> unat (n::u8)"
  shows "unat (off + 1) = unat off + 1" "unat (1 + off) = unat off + 1"
  using unat_off [OF assms, of 1] by (simp_all add: add.commute)

lemma get_u8_iff:
  "get_u8 pe off t = Some (v, t') \<longleftrightarrow>
     unat off + 1 \<le> unat (m_numCtlBytes t) \<and> pe off t = Some t' \<and> v = m_ctlBytes t' (unat off)"
  by (auto simp: get_u8_def split: option.splits)

lemma get_u16_iff:
  "get_u16 pe off t = Some (v, t') \<longleftrightarrow>
     unat off + 2 \<le> unat (m_numCtlBytes t) \<and> pe off t = Some t' \<and>
     v = push_bit 8 (ucast (m_ctlBytes t' (unat off + 1))) OR ucast (m_ctlBytes t' (unat off))"
  by (auto simp: get_u16_def Let_def split: option.splits)

lemma get_u32_iff:
  "get_u32 pe off t = Some (v, t') \<longleftrightarrow>
     unat off + 4 \<le> unat (m_numCtlBytes t) \<and> pe off t = Some t' \<and>
     v = push_bit 24 (ucast (m_ctlBytes t' (unat off + 3))) OR
         push_bit 16 (ucast (m_ctlBytes t' (unat off + 2))) OR
         push_bit 8 (ucast (m_ctlBytes t' (unat off + 1))) OR ucast (m_ctlBytes t' (unat off))"
proof (cases "unat off + 4 \<le> unat (m_numCtlBytes t)")
  case True
  note u = unat_off_simps [OF True]
  have o: "off + 4 - 1 = off + 3" "off + 4 - 1 - 1 = off + 2" "off + 4 - 1 - 2 = off + 1"
    "off + 4 - 1 - 3 = off" by simp_all
  show ?thesis using True
    by (auto simp: get_u32_def Let_def get_loop_3 o u push_bit_or push_bit_push_bit or.assoc
             split: option.splits)
next
  case False
  then show ?thesis by (simp add: get_u32_def)
qed

lemma set_u16_eq:
  assumes "unat off + 2 \<le> unat (m_numCtlBytes t)"
  shows "set_u16 em off v t =
     em (off + 2) (t\<lparr>m_ctlBytes := (m_ctlBytes t)(unat off := ucast v,
                                                   unat off + 1 := ucast (drop_bit 8 v))\<rparr>)"
  using assms by (simp add: set_u16_def Let_def low_byte16 unat_off_1 [OF assms] add.assoc)

lemma set_u32_eq:
  assumes "unat off + 4 \<le> unat (m_numCtlBytes t)"
  shows "set_u32 em off v t =
     em (off + 4) (t\<lparr>m_ctlBytes := (m_ctlBytes t)(unat off := ucast v,
                                                   unat off + 1 := ucast (drop_bit 8 v),
                                                   unat off + 2 := ucast (drop_bit 16 v),
                                                   unat off + 3 := ucast (drop_bit 24 v))\<rparr>)"
  using assms
  by (simp add: set_u32_def Let_def low_byte32 set_loop_3 unat_off_simps [OF assms] add.assoc)

lemma Recording_entryModified_bytes:
  "\<exists>r. Recording_entryModified arg (test_table\<lparr>m_ctlBytes := m\<rparr>) = Some r \<and> m_ctlBytes r = m"
  by (simp add: Recording_entryModified_def IControlTable_entryModified_def get_u8_def
                Recording_populateEntry_def IControlTable_populateEntry_def setBaudRate_def
                Offset_BAUD_def test_table_def Let_def)

lemma FileStorage_load_frame:
  "unat numBytes \<le> i \<Longrightarrow> snd (FileStorage_load file offset numBytes mem) i = mem i"
  by (auto simp: FileStorage_load_def Let_def split: option.splits)

section \<open>The claims about the packet parser\<close>

text \<open>
  Claim C1, amended. A frame is constructed on a packet of capacity \<open>C\<close> with the id
  \<open>i\<close>, the command \<open>c\<close> and the parameter bytes \<open>ps\<close> (\<^verbatim>\<open>params\<close> returns, so they are
  at most \<open>C\<close>), its checksum is updated, and \<^verbatim>\<open>data\<close> writes it to a buffer with room for
  the whole frame. When the id is not \<open>0xFF\<close>, feeding the bytes written to a fresh
  packet with room for the parameters returns \<^verbatim>\<open>Error::NOT_DONE\<close> on every byte but the
  last and \<^verbatim>\<open>Error::NONE\<close> on the last, and the packet then holds the id, the command,
  the number of parameters and the parameter bytes of the frame.
\<close>

theorem C1_round_trip_amended:
  assumes "Packet_ctor C memA = Some p0"
    and "params_list ps (set_command c (set_id i p0)) = Some p1"
    and "i \<noteq> 0xFF"
    and "length ps + 6 \<le> maxLen"
    and "Packet_ctor C' memB = Some q" and "length ps \<le> C'"
  shows "let r = data maxLen buf (update_checksum p1);
             bytes = map (snd r) [0..<fst r];
             res = processBytes q bytes
         in fst r = length ps + 6 \<and>
            fst res = replicate (length ps + 5) Error_NOT_DONE @ [Error_NONE] \<and>
            m_id (snd res) = i \<and> m_cmd (snd res) = c \<and>
            unat (numParams (snd res)) = length ps \<and>
            map (m_params (snd res)) [0..<length ps] = ps"
proof -
  note p1 = params_list_Some [OF assms(1,2)]
  note q = Packet_ctor_Some [OF assms(5)]
  define l where "l = m_length p1"
  define cs where "cs = NOT (i + l + c + sum_list ps)"
  let ?p2 = "update_checksum p1"
  have p2: "m_id ?p2 = i" "m_length ?p2 = l" "m_cmd ?p2 = c" "m_params ?p2 = m_params p1"
    "numParams ?p2 = numParams p1" "m_maxParams ?p2 = m_maxParams p1"
    using p1 by (simp_all add: update_checksum_def l_def numParams_def)
  have sum: "m_checksum ?p2 = cs"
    using p1 by (simp add: update_checksum_def update_checksum_loop_sum cs_def l_def)
  have fits: "unat (numParams ?p2) \<le> unat (m_maxParams ?p2)"
    and room: "unat (numParams ?p2) + 6 \<le> maxLen"
    using p1 assms(4) by (simp_all add: p2)
  note d = data_all [OF fits room, of buf]
  have len: "fst (data maxLen buf ?p2) = length ps + 6"
    using d p1 by (simp add: p2)
  have bytes: "map (snd (data maxLen buf ?p2)) [0..<fst (data maxLen buf ?p2)] =
      (0xFF # 0xFF # i # l # c # ps) @ [cs]"
    using d [THEN conjunct2] p1 by (simp add: p2 sum)
  have lps: "length ps = unat l - 2" using p1 by (simp add: l_def)
  define h where "h = q\<lparr>m_state := COMMAND_RCVD, m_id := i, m_length := l, m_cmd := c,
          m_checksum := i + l + c + sum_list ps,
          m_params := (\<lambda>j. if j < length ps \<and> j < unat (m_maxParams q)
                            then ps ! j else m_params q j),
          m_paramIdx := of_nat (length ps)\<rparr>"
  have frame: "processBytes q (0xFF # 0xFF # i # l # c # ps) =
      (replicate (5 + length ps) Error_NOT_DONE, h)"
    unfolding h_def using q assms(3) lps by (intro processBytes_frame_bytes) simp_all
  have n: "unat (of_nat (length ps) :: u8) = length ps"
    using assms(6) q by (simp add: unat_of_nat)
  have hn: "unat (numParams h) = length ps"
    using lps by (simp add: h_def unat_numParams)
  have h: "m_state h = COMMAND_RCVD" "numParams h \<le> m_paramIdx h" "NOT (m_checksum h) = cs"
    "m_paramIdx h \<le> m_maxParams h"
    using hn n q assms(6) by (simp_all add: word_le_nat_alt) (simp_all add: h_def cs_def)
  have last: "processByte h cs = (Error_NONE, h\<lparr>m_checksum := cs, m_state := IDLE\<rparr>)"
    using h by (simp add: processByte_final)
  have res: "processBytes q ((0xFF # 0xFF # i # l # c # ps) @ [cs]) =
      (replicate (length ps + 5) Error_NOT_DONE @ [Error_NONE], h\<lparr>m_checksum := cs, m_state := IDLE\<rparr>)"
    by (simp only: processBytes_append frame fst_conv snd_conv)
       (simp add: processBytes.simps(2) last add.commute)
  have par: "map (m_params (h\<lparr>m_checksum := cs, m_state := IDLE\<rparr>)) [0..<length ps] = ps"
    using assms(6) q by (intro nth_equalityI) (simp_all add: h_def)
  have "unat (numParams (h\<lparr>m_checksum := cs, m_state := IDLE\<rparr>)) = length ps"
    using hn by (simp add: unat_numParams)
  moreover have "map (snd (data maxLen buf ?p2)) [0..<length ps + 6] =
      (0xFF # 0xFF # i # l # c # ps) @ [cs]"
    using bytes len by simp
  ultimately show ?thesis
    unfolding Let_def len using par by (simp only: res fst_conv snd_conv) (simp add: h_def)
qed

text \<open>The frame of the test \<^verbatim>\<open>PacketTest.ConstructPacketParamsData\<close>.\<close>

theorem C1_round_trip_amended_witness:
  "fst (processBytes (the (Packet_ctor 8 zeros))
         (map (snd (data 20 zeros (update_checksum
                 (the (params_list [0x03, 0x01]
                        (set_command Command_WRITE (set_id ID_BROADCAST (the (Packet_ctor 8 zeros)))))))))
              [0..<fst (data 20 zeros (update_checksum
                 (the (params_list [0x03, 0x01]
                        (set_command Command_WRITE (set_id ID_BROADCAST (the (Packet_ctor 8 zeros))))))))]))
   = [Error_NOT_DONE, Error_NOT_DONE, Error_NOT_DONE, Error_NOT_DONE, Error_NOT_DONE,
      Error_NOT_DONE, Error_NOT_DONE, Error_NONE]"
proof -
  have a: "Packet_ctor 8 zeros = Some (the (Packet_ctor 8 zeros))" by (rule Packet_ctor_the) simp
  have b: "params_list [0x03, 0x01] (set_command Command_WRITE (set_id ID_BROADCAST (the (Packet_ctor 8 zeros))))
     = Some (the (params_list [0x03, 0x01]
                        (set_command Command_WRITE (set_id ID_BROADCAST (the (Packet_ctor 8 zeros))))))"
    by (simp add: params_list_def params_def set_command_def set_id_def Packet_ctor_def MAX_PARAMS_def)
  have c: "ID_BROADCAST \<noteq> 0xFF" by (simp add: ID_BROADCAST_def)
  have r: "replicate 7 Error_NOT_DONE = [Error_NOT_DONE, Error_NOT_DONE, Error_NOT_DONE,
      Error_NOT_DONE, Error_NOT_DONE, Error_NOT_DONE, Error_NOT_DONE]"
    by (simp add: eval_nat_numeral)
  have d: "length [0x03, 0x01 :: u8] + 6 \<le> (20::nat)" and e: "length [0x03, 0x01 :: u8] \<le> (8::nat)"
    by simp_all
  note t = C1_round_trip_amended [OF a b c d a e, of zeros, unfolded Let_def]
  from t [THEN conjunct2, THEN conjunct1] show ?thesis
    by (simp add: r)
qed

text \<open>
  Claim C1 as stated fails for the id \<open>0xFF\<close> (\<^verbatim>\<open>ID::INVALID\<close>), which the setter
  accepts: the frame with that id, the command \<^verbatim>\<open>WRITE\<close> and the parameters \<open>03 01\<close> is
  written as \<open>FF FF FF 04 03 03 01 F5\<close>; the parser takes the id byte for a third sync
  byte and the length 4 for the id, and the last call returns \<^verbatim>\<open>Error::CHECKSUM\<close>.
\<close>

theorem C1_round_trip_counterexample:
  "map (snd (data 20 zeros (update_checksum
                 (the (params_list [0x03, 0x01]
                        (set_command Command_WRITE (set_id ID_INVALID (the (Packet_ctor 8 zeros)))))))))
              [0..<fst (data 20 zeros (update_checksum
                 (the (params_list [0x03, 0x01]
                        (set_command Command_WRITE (set_id ID_INVALID (the (Packet_ctor 8 zeros))))))))]
     = [0xFF, 0xFF, 0xFF, 0x04, 0x03, 0x03, 0x01, 0xF5] \<and>
   fst (processBytes (the (Packet_ctor 8 zeros)) [0xFF, 0xFF, 0xFF, 0x04, 0x03, 0x03, 0x01, 0xF5])
     = [Error_NOT_DONE, Error_NOT_DONE, Error_NOT_DONE, Error_NOT_DONE, Error_NOT_DONE,
        Error_NOT_DONE, Error_NOT_DONE, Error_CHECKSUM] \<and>
   m_id (snd (processBytes (the (Packet_ctor 8 zeros)) [0xFF, 0xFF, 0xFF, 0x04, 0x03, 0x03, 0x01, 0xF5]))
     = 0x04"
proof -
  have n: "Suc (Suc 0) = 2" "Suc 2 = 3" "Suc 3 = 4" "Suc 4 = 5" "Suc 5 = 6" "Suc 6 = 7" "Suc 7 = 8"
    by simp_all
  have u: "[0..<8] = [0, 1, 2, 3, 4, 5, 6, 7]" by (simp add: upt_rec)
  have "map (snd (data 20 zeros (update_checksum
                 (the (params_list [0x03, 0x01]
                        (set_command Command_WRITE (set_id ID_INVALID (the (Packet_ctor 8 zeros)))))))))
              [0..<fst (data 20 zeros (update_checksum
                 (the (params_list [0x03, 0x01]
                        (set_command Command_WRITE (set_id ID_INVALID (the (Packet_ctor 8 zeros))))))))]
     = [0xFF, 0xFF, 0xFF, 0x04, 0x03, 0x03, 0x01, 0xF5]"
    by (simp add: params_list_def params_def set_command_def set_id_def Packet_ctor_def MAX_PARAMS_def
                  update_checksum_def update_checksum_loop.simps numParams_def memcpy_def
                  ID_INVALID_def ID_DEFAULT_def Command_WRITE_def Command_PING_def
                  data_def put_def Let_def data_loop.simps n u
                  word_le_nat_alt word_less_nat_alt)
  moreover have "fst (processBytes (the (Packet_ctor 8 zeros)) [0xFF, 0xFF, 0xFF, 0x04, 0x03, 0x03, 0x01, 0xF5])
     = [Error_NOT_DONE, Error_NOT_DONE, Error_NOT_DONE, Error_NOT_DONE, Error_NOT_DONE,
        Error_NOT_DONE, Error_NOT_DONE, Error_CHECKSUM]"
    "m_id (snd (processBytes (the (Packet_ctor 8 zeros)) [0xFF, 0xFF, 0xFF, 0x04, 0x03, 0x03, 0x01, 0xF5]))
     = 0x04"
    by (simp_all add: Packet_ctor_def MAX_PARAMS_def processBytes.simps(2) processByte_cases numParams_def
                  word_le_nat_alt word_less_nat_alt)
  ultimately show ?thesis by simp
qed

text \<open>
  Claim C2. A packet is constructed with capacity \<open>C\<close> on the memory \<open>mem\<close> and fed any
  bytes \<open>bs\<close>. The memory at every index from \<open>C\<close> on is as it was, whatever it was: no
  byte has been stored there. The next call stores nothing in the parameter buffer, or it
  stores its byte at the parameter index, which is then below \<open>C\<close>. When that call is the
  final one of a frame (the parameter index has reached the declared count
  \<^verbatim>\<open>numParams()\<close>, which is the length field minus 2, lemma \<open>unat_numParams\<close>), the
  checksum matches and the declared count exceeds \<open>C\<close>, it returns
  \<^verbatim>\<open>Error::TOO_MUCH_DATA\<close>; it returns \<^verbatim>\<open>Error::NONE\<close> only when the declared count is at
  most \<open>C\<close>.
\<close>

theorem C2_no_overflow:
  assumes "Packet_ctor C mem = Some q"
  shows "(\<forall>i. C \<le> i \<longrightarrow> m_params (snd (processBytes q bs)) i = mem i) \<and>
         (m_params (snd (processByte (snd (processBytes q bs)) b)) = m_params (snd (processBytes q bs)) \<or>
          unat (m_paramIdx (snd (processBytes q bs))) < C \<and>
          m_params (snd (processByte (snd (processBytes q bs)) b)) =
            (m_params (snd (processBytes q bs)))(unat (m_paramIdx (snd (processBytes q bs))) := b)) \<and>
         (m_state (snd (processBytes q bs)) = COMMAND_RCVD \<and>
          numParams (snd (processBytes q bs)) \<le> m_paramIdx (snd (processBytes q bs)) \<and>
          NOT (m_checksum (snd (processBytes q bs))) = b \<and>
          C < unat (numParams (snd (processBytes q bs))) \<longrightarrow>
            fst (processByte (snd (processBytes q bs)) b) = Error_TOO_MUCH_DATA) \<and>
         (fst (processByte (snd (processBytes q bs)) b) = Error_NONE \<longrightarrow>
            unat (numParams (snd (processBytes q bs))) \<le> C)"
proof -
  let ?p = "snd (processBytes q bs)"
  note q = Packet_ctor_Some [OF assms]
  have cap: "unat (m_maxParams ?p) = C" using q by simp
  have ok: "idx_ok ?p" using idx_ok_ctor [OF assms] by (rule idx_ok_processBytes)
  have frame: "\<forall>i. C \<le> i \<longrightarrow> m_params ?p i = mem i"
    using processBytes_frame [of q _ bs] q by simp
  have store: "m_params (snd (processByte ?p b)) = m_params ?p \<or>
      unat (m_paramIdx ?p) < C \<and>
      m_params (snd (processByte ?p b)) = (m_params ?p)(unat (m_paramIdx ?p) := b)"
    using cap by (auto simp: processByte_params word_less_nat_alt)
  have fin: "fst (processByte ?p b) = Error_TOO_MUCH_DATA"
    if "m_state ?p = COMMAND_RCVD" "numParams ?p \<le> m_paramIdx ?p" "NOT (m_checksum ?p) = b"
       "C < unat (numParams ?p)"
  proof -
    from ok that(1) have "m_paramIdx ?p \<le> numParams ?p" by (simp add: idx_ok_def)
    with that(2) have "m_paramIdx ?p = numParams ?p" by simp
    with that(4) cap have "\<not> m_paramIdx ?p \<le> m_maxParams ?p" by (simp add: word_le_nat_alt)
    with that(1,2,3) show ?thesis by (simp add: processByte_final)
  qed
  have none: "unat (numParams ?p) \<le> C" if "fst (processByte ?p b) = Error_NONE"
  proof (cases "m_state ?p = COMMAND_RCVD \<and> numParams ?p \<le> m_paramIdx ?p")
    case True
    with that have "m_paramIdx ?p \<le> m_maxParams ?p"
      by (simp add: processByte_final split: if_splits)
    moreover from True have "numParams ?p \<le> m_paramIdx ?p" by simp
    ultimately show ?thesis using cap by (simp add: word_le_nat_alt)
  next
    case False
    then have "fst (processByte ?p b) = Error_NOT_DONE"
      by (cases "m_state ?p") (auto simp: processByte_cases not_le)
    with that show ?thesis by simp
  qed
  from frame store fin none show ?thesis by blast
qed

text \<open>
  The frame of scenario 4, which declares two parameters, up to its checksum byte, with
  capacity 1 and with capacity 2.
\<close>

theorem C2_no_overflow_witness:
  "m_params (snd (processBytes (the (Packet_ctor 1 zeros)) [0xFF, 0xFF, 0x01, 0x04, 0x02, 0x2B, 0x01])) 1 = 0 \<and>
   fst (processByte (snd (processBytes (the (Packet_ctor 1 zeros)) [0xFF, 0xFF, 0x01, 0x04, 0x02, 0x2B, 0x01])) 0xCC)
     = Error_TOO_MUCH_DATA \<and>
   unat (numParams (snd (processBytes (the (Packet_ctor 2 zeros)) [0xFF, 0xFF, 0x01, 0x04, 0x02, 0x2B, 0x01]))) \<le> 2"
proof -
  let ?bs = "[0xFF, 0xFF, 0x01, 0x04, 0x02, 0x2B, 0x01] :: u8 list"
  let ?p = "snd (processBytes (the (Packet_ctor 1 zeros)) ?bs)"
  let ?r = "snd (processBytes (the (Packet_ctor 2 zeros)) ?bs)"
  have h: "Packet_ctor 1 zeros = Some (the (Packet_ctor 1 zeros))" by (rule Packet_ctor_the) simp
  have k: "Packet_ctor 2 zeros = Some (the (Packet_ctor 2 zeros))" by (rule Packet_ctor_the) simp
  have st: "m_state ?p = COMMAND_RCVD \<and> numParams ?p \<le> m_paramIdx ?p \<and> NOT (m_checksum ?p) = 0xCC \<and>
     1 < unat (numParams ?p)"
    by (simp add: Packet_ctor_def MAX_PARAMS_def processBytes.simps(2) processByte_cases numParams_def
                  word_le_nat_alt word_less_nat_alt)
  have ok: "fst (processByte ?r 0xCC) = Error_NONE"
    by (simp add: Packet_ctor_def MAX_PARAMS_def processBytes.simps(2) processByte_cases numParams_def
                  word_le_nat_alt word_less_nat_alt)
  note c = C2_no_overflow [OF h, of ?bs "0xCC"]
  note d = C2_no_overflow [OF k, of ?bs "0xCC"]
  have "m_params ?p 1 = zeros 1"
    using c [THEN conjunct1] by simp
  moreover have "fst (processByte ?p 0xCC) = Error_TOO_MUCH_DATA"
    using c [THEN conjunct2, THEN conjunct2, THEN conjunct1] st by (simp only: simp_thms)
  moreover have "unat (numParams ?r) \<le> 2"
    using d [THEN conjunct2, THEN conjunct2, THEN conjunct2] ok by (simp only: simp_thms)
  ultimately show ?thesis by (simp add: zeros_def)
qed

text \<open>
  Claim C3. In the state that follows the command, once the parameter index has reached
  the declared count, the byte received is the checksum byte, and the register
  \<open>m_checksum\<close> holds the running 8-bit sum. When its complement differs from the byte
  received, the call returns \<^verbatim>\<open>Error::CHECKSUM\<close>, the parser is idle again, and the id,
  the length, the command and the stored parameters are what they were before the call;
  the checksum register holds the byte received. For a whole frame fed to an idle parser
  that sum is the sum of the id, the length, the command and the parameter bytes: when
  the last byte differs from its complement, every call before the last returns
  \<^verbatim>\<open>Error::NOT_DONE\<close>, the last returns \<^verbatim>\<open>Error::CHECKSUM\<close>, and the packet holds the
  id, the length, the command and the parameters of the frame (those that fit the
  capacity).
\<close>

theorem C3_checksum_mismatch:
  "(m_state p = COMMAND_RCVD \<and> numParams p \<le> m_paramIdx p \<and> NOT (m_checksum p) \<noteq> b \<longrightarrow>
      fst (processByte p b) = Error_CHECKSUM \<and>
      m_state (snd (processByte p b)) = IDLE \<and>
      m_id (snd (processByte p b)) = m_id p \<and>
      m_length (snd (processByte p b)) = m_length p \<and>
      m_cmd (snd (processByte p b)) = m_cmd p \<and>
      m_params (snd (processByte p b)) = m_params p \<and>
      m_checksum (snd (processByte p b)) = b) \<and>
   (m_state q = IDLE \<and> i \<noteq> 0xFF \<and> length ps = unat l - 2 \<and>
    b \<noteq> NOT (i + l + c + sum_list ps) \<longrightarrow>
      fst (processBytes q (0xFF # 0xFF # i # l # c # ps @ [b])) =
        replicate (5 + length ps) Error_NOT_DONE @ [Error_CHECKSUM] \<and>
      m_state (snd (processBytes q (0xFF # 0xFF # i # l # c # ps @ [b]))) = IDLE \<and>
      m_id (snd (processBytes q (0xFF # 0xFF # i # l # c # ps @ [b]))) = i \<and>
      m_length (snd (processBytes q (0xFF # 0xFF # i # l # c # ps @ [b]))) = l \<and>
      m_cmd (snd (processBytes q (0xFF # 0xFF # i # l # c # ps @ [b]))) = c \<and>
      (\<forall>j. j < length ps \<and> j < unat (m_maxParams q) \<longrightarrow>
         m_params (snd (processBytes q (0xFF # 0xFF # i # l # c # ps @ [b]))) j = ps ! j))"
proof (intro conjI impI)
  assume "m_state p = COMMAND_RCVD \<and> numParams p \<le> m_paramIdx p \<and> NOT (m_checksum p) \<noteq> b"
  then have r: "processByte p b = (Error_CHECKSUM, p\<lparr>m_checksum := b, m_state := IDLE\<rparr>)"
    by (simp add: processByte_final)
  show "fst (processByte p b) = Error_CHECKSUM" "m_state (snd (processByte p b)) = IDLE"
    "m_id (snd (processByte p b)) = m_id p" "m_length (snd (processByte p b)) = m_length p"
    "m_cmd (snd (processByte p b)) = m_cmd p" "m_params (snd (processByte p b)) = m_params p"
    "m_checksum (snd (processByte p b)) = b"
    by (simp_all add: r)
next
  assume a: "m_state q = IDLE \<and> i \<noteq> 0xFF \<and> length ps = unat l - 2 \<and>
    b \<noteq> NOT (i + l + c + sum_list ps)"
  define h where "h = q\<lparr>m_state := COMMAND_RCVD, m_id := i, m_length := l, m_cmd := c,
          m_checksum := i + l + c + sum_list ps,
          m_params := (\<lambda>j. if j < length ps \<and> j < unat (m_maxParams q)
                            then ps ! j else m_params q j),
          m_paramIdx := of_nat (length ps)\<rparr>"
  have frame: "processBytes q (0xFF # 0xFF # i # l # c # ps) =
      (replicate (5 + length ps) Error_NOT_DONE, h)"
    unfolding h_def using a by (intro processBytes_frame_bytes) simp_all
  have "unat l < 256" using unsigned_less [of l, where ?'a = nat] by simp
  with a have "length ps < 256" by simp
  then have n: "unat (of_nat (length ps) :: u8) = length ps" by (simp add: unat_of_nat)
  have hn: "unat (numParams h) = length ps"
    using a by (simp add: h_def unat_numParams)
  have h: "m_state h = COMMAND_RCVD" "numParams h \<le> m_paramIdx h" "NOT (m_checksum h) \<noteq> b"
    using hn n a by (simp_all add: word_le_nat_alt) (auto simp: h_def)
  have last: "processByte h b = (Error_CHECKSUM, h\<lparr>m_checksum := b, m_state := IDLE\<rparr>)"
    using h by (simp add: processByte_final)
  have "processBytes q ((0xFF # 0xFF # i # l # c # ps) @ [b]) =
      (replicate (5 + length ps) Error_NOT_DONE @ [Error_CHECKSUM],
       h\<lparr>m_checksum := b, m_state := IDLE\<rparr>)"
    by (simp only: processBytes_append frame fst_conv snd_conv)
       (simp add: processBytes.simps(2) last)
  then have res: "processBytes q (0xFF # 0xFF # i # l # c # ps @ [b]) =
      (replicate (5 + length ps) Error_NOT_DONE @ [Error_CHECKSUM],
       h\<lparr>m_checksum := b, m_state := IDLE\<rparr>)"
    by simp
  show "fst (processBytes q (0xFF # 0xFF # i # l # c # ps @ [b])) =
        replicate (5 + length ps) Error_NOT_DONE @ [Error_CHECKSUM]"
    "m_state (snd (processBytes q (0xFF # 0xFF # i # l # c # ps @ [b]))) = IDLE"
    "m_id (snd (processBytes q (0xFF # 0xFF # i # l # c # ps @ [b]))) = i"
    "m_length (snd (processBytes q (0xFF # 0xFF # i # l # c # ps @ [b]))) = l"
    "m_cmd (snd (processBytes q (0xFF # 0xFF # i # l # c # ps @ [b]))) = c"
    "\<forall>j. j < length ps \<and> j < unat (m_maxParams q) \<longrightarrow>
         m_params (snd (processBytes q (0xFF # 0xFF # i # l # c # ps @ [b]))) j = ps ! j"
    unfolding res by (simp_all add: h_def)
qed

text \<open>
  The stream of the test \<^verbatim>\<open>PacketTest.Checksum\<close>: the frame of scenario 4 with the wrong
  checksum byte \<open>0xEE\<close>.
\<close>

theorem C3_checksum_mismatch_witness:
  "fst (processByte (snd (processBytes (the (Packet_ctor 8 zeros))
                            [0xFF, 0xFF, 0x01, 0x04, 0x02, 0x2B, 0x01])) 0xEE) = Error_CHECKSUM \<and>
   m_id (snd (processByte (snd (processBytes (the (Packet_ctor 8 zeros))
                            [0xFF, 0xFF, 0x01, 0x04, 0x02, 0x2B, 0x01])) 0xEE)) = 0x01 \<and>
   fst (processBytes (the (Packet_ctor 8 zeros)) (0xFF # 0xFF # 0x01 # 0x04 # 0x02 # [0x2B, 0x01] @ [0xEE]))
     = replicate (5 + length [0x2B, 0x01 :: u8]) Error_NOT_DONE @ [Error_CHECKSUM] \<and>
   m_params (snd (processBytes (the (Packet_ctor 8 zeros))
                    (0xFF # 0xFF # 0x01 # 0x04 # 0x02 # [0x2B, 0x01] @ [0xEE]))) 1 = 0x01"
proof -
  let ?q = "the (Packet_ctor 8 zeros)"
  let ?p = "snd (processBytes ?q [0xFF, 0xFF, 0x01, 0x04, 0x02, 0x2B, 0x01])"
  have st: "m_state ?p = COMMAND_RCVD \<and> numParams ?p \<le> m_paramIdx ?p \<and> NOT (m_checksum ?p) \<noteq> 0xEE"
    and i: "m_id ?p = 0x01"
    by (simp_all add: Packet_ctor_def MAX_PARAMS_def processBytes.simps(2) processByte_cases numParams_def
                      word_le_nat_alt word_less_nat_alt)
  have fr: "m_state ?q = IDLE \<and> (0x01::u8) \<noteq> 0xFF \<and> length [0x2B, 0x01 :: u8] = unat (0x04::u8) - 2 \<and>
     (0xEE::u8) \<noteq> NOT (0x01 + 0x04 + 0x02 + sum_list [0x2B, 0x01])"
    and cap: "(1::nat) < length [0x2B, 0x01 :: u8] \<and> 1 < unat (m_maxParams ?q)"
    by (simp_all add: Packet_ctor_def MAX_PARAMS_def)
  note a = C3_checksum_mismatch [where p = ?p and b = "0xEE", THEN conjunct1, rule_format, OF st]
  note b = C3_checksum_mismatch [where q = ?q and i = "0x01" and l = "0x04" and c = "0x02"
      and ps = "[0x2B, 0x01]" and b = "0xEE", THEN conjunct2, rule_format, OF fr]
  have "m_params (snd (processBytes ?q (0xFF # 0xFF # 0x01 # 0x04 # 0x02 # [0x2B, 0x01] @ [0xEE]))) 1
      = [0x2B, 0x01] ! 1"
    using b [THEN conjunct2, THEN conjunct2, THEN conjunct2, THEN conjunct2, THEN conjunct2,
             rule_format, OF cap] .
  with a [THEN conjunct1] a [THEN conjunct2, THEN conjunct2, THEN conjunct1] i b [THEN conjunct1]
  show ?thesis by simp
qed

text \<open>
  Claim C4. A packet constructed with room for at least two parameters is fed
  \<open>FF FF FE 04 03 03 01 F6\<close>: every call returns \<^verbatim>\<open>Error::NOT_DONE\<close> but the last, which
  returns \<^verbatim>\<open>Error::NONE\<close>; afterwards the id is \<open>0xFE\<close>, the length 4, the command
  \<open>0x03\<close>, the first two bytes of the parameter buffer are \<open>0x03\<close> and \<open>0x01\<close> (and
  nothing else in it has changed), and the checksum is \<open>0xF6\<close>.
\<close>

theorem C4_scenario:
  assumes "Packet_ctor C mem = Some q" and "2 \<le> C"
  shows "fst (processBytes q [0xFF, 0xFF, 0xFE, 0x04, 0x03, 0x03, 0x01, 0xF6]) =
           [Error_NOT_DONE, Error_NOT_DONE, Error_NOT_DONE, Error_NOT_DONE, Error_NOT_DONE,
            Error_NOT_DONE, Error_NOT_DONE, Error_NONE] \<and>
         (let p = snd (processBytes q [0xFF, 0xFF, 0xFE, 0x04, 0x03, 0x03, 0x01, 0xF6])
          in m_id p = 0xFE \<and> m_length p = 4 \<and> m_cmd p = 0x03 \<and> numParams p = 2 \<and>
             m_params p = mem(0 := 0x03, 1 := 0x01) \<and> m_checksum p = 0xF6 \<and> m_state p = IDLE)"
proof -
  from assms have "2 \<le> unat (m_maxParams q)" "m_state q = IDLE" "m_params q = mem"
    using Packet_ctor_Some by auto
  then show ?thesis
    by (simp add: processBytes.simps(2) processByte_cases numParams_def word_less_nat_alt word_le_nat_alt)
qed

theorem C4_scenario_witness:
  "fst (processBytes (the (Packet_ctor 2 zeros)) [0xFF, 0xFF, 0xFE, 0x04, 0x03, 0x03, 0x01, 0xF6]) =
           [Error_NOT_DONE, Error_NOT_DONE, Error_NOT_DONE, Error_NOT_DONE, Error_NOT_DONE,
            Error_NOT_DONE, Error_NOT_DONE, Error_NONE] \<and>
   m_params (snd (processBytes (the (Packet_ctor 2 zeros)) [0xFF, 0xFF, 0xFE, 0x04, 0x03, 0x03, 0x01, 0xF6])) 1 = 1"
proof -
  have h: "Packet_ctor 2 zeros = Some (the (Packet_ctor 2 zeros))" by (rule Packet_ctor_the) simp
  show ?thesis using C4_scenario [OF h] by (simp add: Let_def)
qed

text \<open>
  Claim C5. A packet constructed with room for one parameter is fed
  \<open>FF FF 01 04 02 2B 01 CC\<close>, which declares two: the last call returns
  \<^verbatim>\<open>Error::TOO_MUCH_DATA\<close>, only the first parameter \<open>0x2B\<close> has been stored, and
  \<^verbatim>\<open>data\<close> with an output buffer of 8 bytes or more returns 6 and writes the six bytes
  \<open>FF FF 01 04 02 2B\<close>, with no checksum byte after them.
\<close>

theorem C5_scenario:
  assumes "Packet_ctor 1 mem = Some q" and "8 \<le> maxLen"
  shows "fst (processBytes q [0xFF, 0xFF, 0x01, 0x04, 0x02, 0x2B, 0x01, 0xCC]) =
           [Error_NOT_DONE, Error_NOT_DONE, Error_NOT_DONE, Error_NOT_DONE, Error_NOT_DONE,
            Error_NOT_DONE, Error_NOT_DONE, Error_TOO_MUCH_DATA] \<and>
         (let p = snd (processBytes q [0xFF, 0xFF, 0x01, 0x04, 0x02, 0x2B, 0x01, 0xCC])
          in m_params p = mem(0 := 0x2B) \<and>
             data maxLen buf p =
               (6, buf(0 := 0xFF, 1 := 0xFF, 2 := 0x01, 3 := 0x04, 4 := 0x02, 5 := 0x2B)))"
proof -
  from assms have q: "m_maxParams q = 1" "m_state q = IDLE" "m_params q = mem"
    using Packet_ctor_Some [OF assms(1)] by (auto simp: word_unat_eq_iff)
  have l: "0 < maxLen" "1 < maxLen" "2 < maxLen" "3 < maxLen" "4 < maxLen" "5 < maxLen"
    using assms(2) by simp_all
  have n: "Suc (Suc 0) = 2" "Suc 2 = 3" "Suc 3 = 4" "Suc 4 = 5" by simp_all
  show ?thesis using q l
    by (simp add: processBytes.simps(2) processByte_cases numParams_def data_def put_def Let_def
                  data_loop.simps word_le_nat_alt word_less_nat_alt n)
qed

theorem C5_scenario_witness:
  "fst (data 8 zeros (snd (processBytes (the (Packet_ctor 1 zeros)) [0xFF, 0xFF, 0x01, 0x04, 0x02, 0x2B, 0x01, 0xCC]))) = 6"
proof -
  have h: "Packet_ctor 1 zeros = Some (the (Packet_ctor 1 zeros))" by (rule Packet_ctor_the) simp
  show ?thesis using C5_scenario [OF h, of 8 zeros] by (simp add: Let_def)
qed

text \<open>
  Claim C6, amended. \<^verbatim>\<open>parseData\<close> gives the terminal result of a stream. A codec that is
  idle is fed a stream with noise put before it. When the noise, fed alone, gives no
  terminal result and leaves the codec idle (as any noise without a \<open>0xFF\<close> byte does,
  lemma \<open>parseData_no_FF\<close>), the result is that of the stream without the noise, error
  code and packet; and for a stream that starts with the two sync bytes, so is the result
  with such noise and then any number of extra \<open>0xFF\<close> bytes before the sync bytes.
\<close>

theorem C6_noise_amended:
  assumes "m_state p = IDLE"
    and "fst (parseData p noise) = Error_NOT_DONE" and "m_state (snd (parseData p noise)) = IDLE"
  shows "parseData p (noise @ s) = parseData p s \<and>
         parseData p (noise @ replicate k 0xFF @ 0xFF # 0xFF # rest) = parseData p (0xFF # 0xFF # rest)"
proof -
  have "snd (parseData p noise) = p\<lparr>m_state := IDLE\<rparr>"
    using assms by (intro parseData_hunting) simp_all
  with assms(1) have same: "snd (parseData p noise) = p" by simp
  have a: "parseData p (noise @ t) = parseData p t" for t
    using parseData_append [OF assms(2)] same by simp
  have sw: "replicate k (0xFF::u8) @ 0xFF # 0xFF # rest = 0xFF # 0xFF # replicate k 0xFF @ rest"
    by (induction k) simp_all
  have "parseData p (replicate k 0xFF @ 0xFF # 0xFF # rest) = parseData p (0xFF # 0xFF # rest)"
    unfolding sw using assms(1) by (simp add: parseData_sync parseData_extra_FF)
  with a show ?thesis by simp
qed

text \<open>The stream of the test \<^verbatim>\<open>PacketTest.Noise\<close>: \<open>00 FF FF FF 01 04 02 2B 01 CC\<close>.\<close>

theorem C6_noise_amended_witness:
  "fst (parseData (the (Packet_ctor 8 zeros)) ([0x00] @ replicate 1 0xFF @ 0xFF # 0xFF # [0x01, 0x04, 0x02, 0x2B, 0x01, 0xCC]))
     = Error_NONE"
proof -
  let ?q = "the (Packet_ctor 8 zeros)"
  have h: "m_state ?q = IDLE" "fst (parseData ?q [0x00]) = Error_NOT_DONE"
          "m_state (snd (parseData ?q [0x00])) = IDLE"
    by (simp_all add: Packet_ctor_def MAX_PARAMS_def parseData.simps(2) processByte_cases)
  have "fst (parseData ?q (0xFF # 0xFF # [0x01, 0x04, 0x02, 0x2B, 0x01, 0xCC])) = Error_NONE"
    by (simp add: Packet_ctor_def MAX_PARAMS_def parseData.simps(2) processByte_cases numParams_def
                  word_le_nat_alt word_less_nat_alt)
  with C6_noise_amended [OF h, of "[]" 1 "[0x01, 0x04, 0x02, 0x2B, 0x01, 0xCC]"]
  show ?thesis by simp
qed

text \<open>
  Claim C6 as stated fails: noise may be taken for the start of a frame. The frame
  \<open>FF FF 01 02 01 FB\<close> alone parses with \<^verbatim>\<open>Error::NONE\<close>; after the noise bytes
  \<open>FF FF 05 02\<close> the parser takes its first two bytes for a command and a checksum, and
  the terminal result is \<^verbatim>\<open>Error::CHECKSUM\<close>.
\<close>

theorem C6_noise_counterexample:
  "fst (parseData (the (Packet_ctor 8 zeros)) [0xFF, 0xFF, 0x01, 0x02, 0x01, 0xFB]) = Error_NONE \<and>
   fst (parseData (the (Packet_ctor 8 zeros))
          ([0xFF, 0xFF, 0x05, 0x02] @ [0xFF, 0xFF, 0x01, 0x02, 0x01, 0xFB])) = Error_CHECKSUM"
  by (simp add: Packet_ctor_def MAX_PARAMS_def parseData.simps(2) processByte_cases numParams_def
                word_le_nat_alt word_less_nat_alt)

text \<open>
  Claim C7. After any sequence of \<^verbatim>\<open>processByte\<close> calls on a freshly constructed packet
  the id is not \<open>0xFF\<close>. In the state after the two sync bytes a further \<open>0xFF\<close> changes
  nothing, and a call changes the id only in that state, on a byte other than \<open>0xFF\<close>,
  which becomes the id.
\<close>

theorem C7_id_never_FF:
  assumes "Packet_ctor C mem = Some q"
  shows "m_id (snd (processBytes q bs)) \<noteq> 0xFF \<and>
         (m_state (snd (processBytes q bs)) = FF_2ND_RCVD \<longrightarrow>
            processByte (snd (processBytes q bs)) 0xFF = (Error_NOT_DONE, snd (processBytes q bs))) \<and>
         (m_id (snd (processByte (snd (processBytes q bs)) b)) \<noteq> m_id (snd (processBytes q bs)) \<longrightarrow>
            m_state (snd (processBytes q bs)) = FF_2ND_RCVD \<and> b \<noteq> 0xFF \<and>
            m_id (snd (processByte (snd (processBytes q bs)) b)) = b)"
proof -
  have "m_id q \<noteq> 0xFF" using Packet_ctor_Some [OF assms] by simp
  then have "m_id (snd (processBytes q bs)) \<noteq> 0xFF" by (rule id_inv_processBytes)
  then show ?thesis by (simp add: processByte_FF_2ND processByte_id)
qed

text \<open>Sync bytes, extra \<open>0xFF\<close> bytes, and then the id 7.\<close>

theorem C7_id_never_FF_witness:
  "m_id (snd (processBytes (the (Packet_ctor 8 zeros)) [0xFF, 0xFF, 0xFF, 0xFF, 0x07])) \<noteq> 0xFF \<and>
   processByte (snd (processBytes (the (Packet_ctor 8 zeros)) [0xFF, 0xFF, 0xFF])) 0xFF =
     (Error_NOT_DONE, snd (processBytes (the (Packet_ctor 8 zeros)) [0xFF, 0xFF, 0xFF])) \<and>
   m_id (snd (processByte (snd (processBytes (the (Packet_ctor 8 zeros)) [0xFF, 0xFF, 0xFF])) 0x07)) = 0x07"
proof -
  let ?q = "the (Packet_ctor 8 zeros)"
  have h: "Packet_ctor 8 zeros = Some ?q" by (rule Packet_ctor_the) simp
  have s: "m_state (snd (processBytes ?q [0xFF, 0xFF, 0xFF])) = FF_2ND_RCVD"
    and i: "m_id (snd (processBytes ?q [0xFF, 0xFF, 0xFF])) = 0"
    by (simp_all add: Packet_ctor_def MAX_PARAMS_def ID_DEFAULT_def processBytes.simps(2) processByte_cases)
  have ch: "m_id (snd (processByte (snd (processBytes ?q [0xFF, 0xFF, 0xFF])) 0x07)) \<noteq>
            m_id (snd (processBytes ?q [0xFF, 0xFF, 0xFF]))"
    by (simp add: i processByte_id s)
  note a = C7_id_never_FF [OF h, of "[0xFF, 0xFF, 0xFF, 0xFF, 0x07]", THEN conjunct1]
  note c = C7_id_never_FF [OF h, of "[0xFF, 0xFF, 0xFF]" "0x07"]
  from a c [THEN conjunct2, THEN conjunct1] c [THEN conjunct2, THEN conjunct2] s ch
  show ?thesis by (simp only: simp_thms)
qed

section \<open>The claims about the control table\<close>

text \<open>
  Claim C8, amended. \<open>pe\<close> and \<open>em\<close> are the \<^verbatim>\<open>populateEntry\<close> and \<^verbatim>\<open>entryModified\<close>
  of any derived class. A \<^verbatim>\<open>get\<close> of 1, 2 or 4 bytes within the table returns exactly
  when the hook \<open>pe\<close>, called once with the offset of the field (its first byte, not
  its end), returns; the value is then read, little-endian, from the bytes as that call
  has left them, and nothing else has changed. A \<^verbatim>\<open>set\<close> within the table writes the
  bytes, little-endian, and its result is that of one call of \<open>em\<close> on the table so
  written. For one byte that call is given the offset of the field, as the documentation
  of the hook says (\<^verbatim>\<open>Offset of the field that was modified\<close>). For 2 and 4 bytes the
  statement leaves open which offset the call is given: it is the same whatever the hook
  is.
\<close>

theorem C8_hooks_amended:
  "(get_u8 pe off t = Some (vb, t') \<longleftrightarrow>
      unat off + 1 \<le> unat (m_numCtlBytes t) \<and> pe off t = Some t' \<and>
      vb = m_ctlBytes t' (unat off)) \<and>
   (get_u16 pe off t = Some (vh, t') \<longleftrightarrow>
      unat off + 2 \<le> unat (m_numCtlBytes t) \<and> pe off t = Some t' \<and>
      vh = push_bit 8 (ucast (m_ctlBytes t' (unat off + 1))) OR ucast (m_ctlBytes t' (unat off))) \<and>
   (get_u32 pe off t = Some (vw, t') \<longleftrightarrow>
      unat off + 4 \<le> unat (m_numCtlBytes t) \<and> pe off t = Some t' \<and>
      vw = push_bit 24 (ucast (m_ctlBytes t' (unat off + 3))) OR
            push_bit 16 (ucast (m_ctlBytes t' (unat off + 2))) OR
            push_bit 8 (ucast (m_ctlBytes t' (unat off + 1))) OR ucast (m_ctlBytes t' (unat off))) \<and>
   (unat off + 1 \<le> unat (m_numCtlBytes t) \<longrightarrow>
      (\<forall>em. set_u8 em off xb t = em off (t\<lparr>m_ctlBytes := (m_ctlBytes t)(unat off := xb)\<rparr>))) \<and>
   (unat off + 2 \<le> unat (m_numCtlBytes t) \<longrightarrow>
      (\<exists>arg. \<forall>em. set_u16 em off xh t =
         em arg (t\<lparr>m_ctlBytes := (m_ctlBytes t)(unat off := ucast xh,
                                                  unat off + 1 := ucast (drop_bit 8 xh))\<rparr>))) \<and>
   (unat off + 4 \<le> unat (m_numCtlBytes t) \<longrightarrow>
      (\<exists>arg. \<forall>em. set_u32 em off xw t =
         em arg (t\<lparr>m_ctlBytes := (m_ctlBytes t)(unat off := ucast xw,
                                                  unat off + 1 := ucast (drop_bit 8 xw),
                                                  unat off + 2 := ucast (drop_bit 16 xw),
                                                  unat off + 3 := ucast (drop_bit 24 xw))\<rparr>)))"
proof -
  have s16: "\<exists>arg. \<forall>em. set_u16 em off xh t =
         em arg (t\<lparr>m_ctlBytes := (m_ctlBytes t)(unat off := ucast xh,
                                                  unat off + 1 := ucast (drop_bit 8 xh))\<rparr>)"
    if "unat off + 2 \<le> unat (m_numCtlBytes t)"
    using set_u16_eq [OF that] by blast
  have s32: "\<exists>arg. \<forall>em. set_u32 em off xw t =
         em arg (t\<lparr>m_ctlBytes := (m_ctlBytes t)(unat off := ucast xw,
                                                  unat off + 1 := ucast (drop_bit 8 xw),
                                                  unat off + 2 := ucast (drop_bit 16 xw),
                                                  unat off + 3 := ucast (drop_bit 24 xw))\<rparr>)"
    if "unat off + 4 \<le> unat (m_numCtlBytes t)"
    using set_u32_eq [OF that] by blast
  show ?thesis
    using get_u8_iff [of pe off t vb t'] get_u16_iff [of pe off t vh t']
      get_u32_iff [of pe off t vw t'] s16 s32
    by (simp add: set_u8_def)
qed

text \<open>
  The derived class that notes its hook calls, at the offset \<open>0x0A\<close> (\<^verbatim>\<open>FIELD2\<close>) of the
  test table, with every width: the hook calls of each \<^verbatim>\<open>get\<close> and of the 1-byte
  \<^verbatim>\<open>set\<close>, and the bytes that the 2-byte and the 4-byte \<^verbatim>\<open>set\<close> leave.
\<close>

theorem C8_hooks_amended_witness:
  "get_u8 Recording_populateEntry 0x0A test_table
     = Some (0, test_table\<lparr>hook_calls := [PopulateEntry 0x0A]\<rparr>) \<and>
   get_u16 Recording_populateEntry 0x0A test_table
     = Some (0, test_table\<lparr>hook_calls := [PopulateEntry 0x0A]\<rparr>) \<and>
   get_u32 Recording_populateEntry 0x0A test_table
     = Some (0, test_table\<lparr>hook_calls := [PopulateEntry 0x0A]\<rparr>) \<and>
   map_option hook_calls (set_u8 Recording_entryModified 0x0A 0x66 test_table)
     = Some [EntryModified 0x0A] \<and>
   set_u16 Recording_entryModified 0x0A 0x5566 test_table \<noteq> None \<and>
   m_ctlBytes (the (set_u16 Recording_entryModified 0x0A 0x5566 test_table)) 0x0A = 0x66 \<and>
   m_ctlBytes (the (set_u16 Recording_entryModified 0x0A 0x5566 test_table)) 0x0B = 0x55 \<and>
   set_u32 Recording_entryModified 0x0A 0x11223344 test_table \<noteq> None \<and>
   m_ctlBytes (the (set_u32 Recording_entryModified 0x0A 0x11223344 test_table)) 0x0A = 0x44 \<and>
   m_ctlBytes (the (set_u32 Recording_entryModified 0x0A 0x11223344 test_table)) 0x0D = 0x11"
proof -
  let ?t' = "test_table\<lparr>hook_calls := [PopulateEntry 0x0A]\<rparr>"
  have b: "unat (0x0A::u8) + 1 \<le> unat (m_numCtlBytes test_table)"
    "unat (0x0A::u8) + 2 \<le> unat (m_numCtlBytes test_table)"
    "unat (0x0A::u8) + 4 \<le> unat (m_numCtlBytes test_table)"
    by (simp_all add: test_table_def)
  have pe: "Recording_populateEntry 0x0A test_table = Some ?t'"
    by (simp add: Recording_populateEntry_def IControlTable_populateEntry_def test_table_def)
  have z: "m_ctlBytes ?t' = zeros"
    by (simp add: test_table_def)
  note c = C8_hooks_amended [where pe = Recording_populateEntry and off = "0x0A"
              and t = test_table and t' = ?t' and vb = 0 and vh = 0 and vw = 0
              and xb = "0x66" and xh = "0x5566" and xw = "0x11223344"]
  have g8: "get_u8 Recording_populateEntry 0x0A test_table = Some (0, ?t')"
    using c [THEN conjunct1] b pe by (simp add: z zeros_def)
  have g16: "get_u16 Recording_populateEntry 0x0A test_table = Some (0, ?t')"
    using c [THEN conjunct2, THEN conjunct1] b pe by (simp add: z zeros_def)
  have g32: "get_u32 Recording_populateEntry 0x0A test_table = Some (0, ?t')"
    using c [THEN conjunct2, THEN conjunct2, THEN conjunct1] b pe by (simp add: z zeros_def)
  have "set_u8 Recording_entryModified 0x0A 0x66 test_table =
      Recording_entryModified 0x0A (test_table\<lparr>m_ctlBytes := (m_ctlBytes test_table)(unat (0x0A::u8) := 0x66)\<rparr>)"
    using c [THEN conjunct2, THEN conjunct2, THEN conjunct2, THEN conjunct1] b(1) by blast
  then have s8: "map_option hook_calls (set_u8 Recording_entryModified 0x0A 0x66 test_table)
     = Some [EntryModified 0x0A]"
    by (simp add: Recording_entryModified_def IControlTable_entryModified_def Offset_BAUD_def
                  test_table_def)
  let ?m16 = "(m_ctlBytes test_table)(unat (0x0A::u8) := ucast (0x5566::u16),
                 unat (0x0A::u8) + 1 := ucast (drop_bit 8 (0x5566::u16)))"
  let ?m32 = "(m_ctlBytes test_table)(unat (0x0A::u8) := ucast (0x11223344::u32),
                 unat (0x0A::u8) + 1 := ucast (drop_bit 8 (0x11223344::u32)),
                 unat (0x0A::u8) + 2 := ucast (drop_bit 16 (0x11223344::u32)),
                 unat (0x0A::u8) + 3 := ucast (drop_bit 24 (0x11223344::u32)))"
  from c [THEN conjunct2, THEN conjunct2, THEN conjunct2, THEN conjunct2, THEN conjunct1] b(2)
  obtain a16 where "set_u16 Recording_entryModified 0x0A 0x5566 test_table =
      Recording_entryModified a16 (test_table\<lparr>m_ctlBytes := ?m16\<rparr>)"
    by blast
  with Recording_entryModified_bytes [of a16 ?m16]
  obtain r16 where r16: "set_u16 Recording_entryModified 0x0A 0x5566 test_table = Some r16"
    "m_ctlBytes r16 = ?m16" by auto
  from c [THEN conjunct2, THEN conjunct2, THEN conjunct2, THEN conjunct2, THEN conjunct2] b(3)
  obtain a32 where "set_u32 Recording_entryModified 0x0A 0x11223344 test_table =
      Recording_entryModified a32 (test_table\<lparr>m_ctlBytes := ?m32\<rparr>)"
    by blast
  with Recording_entryModified_bytes [of a32 ?m32]
  obtain r32 where r32: "set_u32 Recording_entryModified 0x0A 0x11223344 test_table = Some r32"
    "m_ctlBytes r32 = ?m32" by auto
  have v16: "?m16 0x0A = 0x66" "?m16 0x0B = 0x55"
    by (simp_all add: drop_bit_eq_div)
  have v32: "?m32 0x0A = 0x44" "?m32 0x0D = 0x11"
    by (simp_all add: drop_bit_eq_div)
  from g8 g16 g32 s8 show ?thesis
    by (simp only: r16 r32 option.sel v16 v32 simp_thms option.distinct not_False_eq_True)
qed

text \<open>
  Claim C8 as stated fails: on a \<^verbatim>\<open>get\<close> of the 2-byte field at \<open>0x0A\<close> the hook is
  given \<open>0x0A\<close>, not the end offset \<open>0x0C\<close>, and on a \<^verbatim>\<open>set\<close> of the 1-byte field at
  \<open>0x0C\<close> it is given \<open>0x0C\<close>, not \<open>0x0D\<close>.
\<close>

theorem C8_hooks_counterexample:
  "map_option (hook_calls \<circ> snd) (get_u16 Recording_populateEntry 0x0A test_table)
     = Some [PopulateEntry 0x0A] \<and>
   map_option (hook_calls \<circ> snd) (get_u16 Recording_populateEntry 0x0A test_table)
     \<noteq> Some [PopulateEntry (0x0A + 2)] \<and>
   map_option hook_calls (set_u8 Recording_entryModified 0x0C 0x77 test_table)
     = Some [EntryModified 0x0C] \<and>
   map_option hook_calls (set_u8 Recording_entryModified 0x0C 0x77 test_table)
     \<noteq> Some [EntryModified (0x0C + 1)]"
  by (simp add: get_u16_def set_u8_def Recording_populateEntry_def Recording_entryModified_def
                IControlTable_populateEntry_def IControlTable_entryModified_def Offset_BAUD_def
                test_table_def Let_def)

text \<open>
  Claim C9. With the base class's hooks, on a table that holds the baud register, a
  1-byte \<^verbatim>\<open>set\<close> of \<open>b\<close> at \<^verbatim>\<open>Offset::BAUD\<close> stores the byte and calls the port's
  \<^verbatim>\<open>setBaudRate\<close> exactly once, with \<open>2000000 div (b + 1)\<close>; for \<open>b = 1\<close> that is
  \<open>1000000\<close>.
\<close>

theorem C9_baud_rate:
  assumes "5 \<le> unat (m_numCtlBytes t)"
  shows "set_u8 (IControlTable_entryModified IControlTable_populateEntry) Offset_BAUD b t =
           Some (t\<lparr>m_ctlBytes := (m_ctlBytes t)(4 := b),
                    m_port := m_port t @ [of_nat (2000000 div (unat b + 1))]\<rparr>) \<and>
         (b = 0x01 \<longrightarrow>
            set_u8 (IControlTable_entryModified IControlTable_populateEntry) Offset_BAUD b t =
              Some (t\<lparr>m_ctlBytes := (m_ctlBytes t)(4 := b), m_port := m_port t @ [1000000]\<rparr>))"
proof -
  have lt: "unat b < 256" using unsigned_less [of b, where ?'a = nat] by simp
  then have u: "unat ((ucast b :: u32) + 1) = unat b + 1"
    by (simp add: unat_word_ariths unsigned_ucast_eq take_bit_nat_eq_self)
  have "unat (2000000 div ((ucast b :: u32) + 1)) = 2000000 div (unat b + 1)"
    by (simp add: unat_div u)
  moreover have "(2000000::nat) div (unat b + 1) < 4294967296"
    by (rule le_less_trans [OF div_le_dividend]) simp
  then have "(2000000::nat) div (unat b + 1) mod 4294967296 = 2000000 div (unat b + 1)"
    by (rule mod_less)
  ultimately have r: "2000000 div ((ucast b :: u32) + 1) = of_nat (2000000 div (unat b + 1))"
    by (simp add: word_unat_eq_iff unat_of_nat)
  have "set_u8 (IControlTable_entryModified IControlTable_populateEntry) Offset_BAUD b t =
           Some (t\<lparr>m_ctlBytes := (m_ctlBytes t)(4 := b),
                    m_port := m_port t @ [of_nat (2000000 div (unat b + 1))]\<rparr>)"
    using assms
    by (simp add: set_u8_def IControlTable_entryModified_def get_u8_def
                  IControlTable_populateEntry_def setBaudRate_def Offset_BAUD_def Let_def r)
  moreover have "(of_nat (2000000 div (unat (0x01::u8) + 1)) :: u32) = 1000000"
  proof -
    have "unat (0x01::u8) + 1 = 2" by simp
    moreover have "(2000000::nat) div 2 = 1000000" by simp
    ultimately have "(2000000::nat) div (unat (0x01::u8) + 1) = 1000000" by (simp only:)
    then show ?thesis by (simp only: of_nat_numeral)
  qed
  ultimately show ?thesis by (intro conjI impI) (simp_all only:)
qed

text \<open>The test table, whose port has not been called before.\<close>

theorem C9_baud_rate_witness:
  "map_option m_port
     (set_u8 (IControlTable_entryModified IControlTable_populateEntry) Offset_BAUD 0x01 test_table)
   = Some [1000000]"
proof -
  have h: "5 \<le> unat (m_numCtlBytes test_table)" by (simp add: test_table_def)
  from C9_baud_rate [OF h, of "0x01", THEN conjunct2] show ?thesis
    by (simp add: test_table_def)
qed

text \<open>
  Claim C10. \<open>ld\<close> is the \<^verbatim>\<open>load\<close> of any storage collaborator that stores into the
  first \<^verbatim>\<open>numBytes\<close> bytes at \<^verbatim>\<open>data\<close> only. \<^verbatim>\<open>IControlTable::load\<close> hands it the
  buffer with all \<^verbatim>\<open>m_numCtlBytes\<close> bytes set to 0; when it reports success, the table
  holds what it has left, and every byte from \<^verbatim>\<open>m_numPersistentBytes\<close> up to
  \<^verbatim>\<open>m_numCtlBytes\<close> is 0.
\<close>

theorem C10_load_zeroes:
  assumes "\<And>mem i. unat (m_numPersistentBytes t) \<le> i \<Longrightarrow>
              snd (ld 0 (m_numPersistentBytes t) mem) i = mem i"
    and "fst (ld 0 (m_numPersistentBytes t) (memset (m_ctlBytes t) 0 (unat (m_numCtlBytes t))))
           = Storage_NONE"
  shows "load ld init t =
           Some (t\<lparr>m_ctlBytes := snd (ld 0 (m_numPersistentBytes t)
                                        (memset (m_ctlBytes t) 0 (unat (m_numCtlBytes t))))\<rparr>) \<and>
         (\<forall>i. i < unat (m_numCtlBytes t) \<longrightarrow>
              memset (m_ctlBytes t) 0 (unat (m_numCtlBytes t)) i = 0) \<and>
         (\<forall>i. unat (m_numPersistentBytes t) \<le> i \<and> i < unat (m_numCtlBytes t) \<longrightarrow>
              m_ctlBytes (the (load ld init t)) i = 0)"
proof -
  let ?z = "memset (m_ctlBytes t) 0 (unat (m_numCtlBytes t))"
  have l: "load ld init t = Some (t\<lparr>m_ctlBytes := snd (ld 0 (m_numPersistentBytes t) ?z)\<rparr>)"
    using assms(2) by (simp add: load_def Let_def case_prod_beta)
  have z: "\<forall>i. i < unat (m_numCtlBytes t) \<longrightarrow> ?z i = 0"
    by (simp add: memset_def)
  have "m_ctlBytes (the (load ld init t)) i = 0"
    if "unat (m_numPersistentBytes t) \<le> i" "i < unat (m_numCtlBytes t)" for i
    using assms(1) [OF that(1), of ?z] that(2) by (simp add: l memset_def)
  with l z show ?thesis by blast
qed

text \<open>
  \<^verbatim>\<open>FileStorage\<close> on a file of 16 bytes \<open>0x55\<close>, and a table whose volatile byte at
  \<open>0x1B\<close> was \<open>0x99\<close> before the load.
\<close>

theorem C10_load_zeroes_witness:
  "m_ctlBytes (the (load (FileStorage_load (Some (replicate 16 0x55)))
                     (IControlTable_setToInitialValues Recording_entryModified)
                     (test_table\<lparr>m_ctlBytes := zeros(0x1B := 0x99)\<rparr>))) 0x1B = 0 \<and>
   m_ctlBytes (the (load (FileStorage_load (Some (replicate 16 0x55)))
                     (IControlTable_setToInitialValues Recording_entryModified)
                     (test_table\<lparr>m_ctlBytes := zeros(0x1B := 0x99)\<rparr>))) 0x0F = 0x55"
proof -
  let ?t = "test_table\<lparr>m_ctlBytes := zeros(0x1B := 0x99)\<rparr>"
  let ?ld = "FileStorage_load (Some (replicate 16 0x55))"
  have f: "\<And>mem i. unat (m_numPersistentBytes ?t) \<le> i \<Longrightarrow>
              snd (?ld 0 (m_numPersistentBytes ?t) mem) i = mem i"
    by (rule FileStorage_load_frame)
  have ok: "fst (?ld 0 (m_numPersistentBytes ?t) (memset (m_ctlBytes ?t) 0 (unat (m_numCtlBytes ?t))))
           = Storage_NONE"
    by (simp add: FileStorage_load_def test_table_def Let_def)
  note c = C10_load_zeroes [of ?t ?ld "IControlTable_setToInitialValues Recording_entryModified",
                            OF f ok]
  have a: "m_ctlBytes (the (load ?ld (IControlTable_setToInitialValues Recording_entryModified) ?t)) 0x1B = 0"
    using c [THEN conjunct2, THEN conjunct2, THEN spec, of "0x1B"] by (simp add: test_table_def)
  have b: "m_ctlBytes (the (load ?ld (IControlTable_setToInitialValues Recording_entryModified) ?t)) 0x0F = 0x55"
    using c [THEN conjunct1] by (simp add: FileStorage_load_def test_table_def Let_def)
  from a b show ?thesis by simp
qed

end
